theory Spec2Isabelle
  imports Complex_Main
begin

section \<open>BSE demo: propofol three-compartment pharmacokinetics (bse\_pk.js)\<close>

text \<open>
  A shallow embedding of \<^verbatim>\<open>src/demo/bse-propofol/bse_pk.js\<close>: the guardrails of
  \<^verbatim>\<open>readParams\<close>, the infusion term \<^verbatim>\<open>doseRate\<close>, the right-hand side
  \<^verbatim>\<open>deriv\<close>, the Runge-Kutta loop of \<^verbatim>\<open>solveRK4\<close> and the reduction of
  \<^verbatim>\<open>computeMetrics\<close>.

  Numbers. A JavaScript number is an IEEE-754 double. The program is embedded twice.

  In the first embedding a finite number is a \<^typ>\<open>real\<close> and \<open>+\<close>, \<open>-\<close>, \<open>*\<close>, \<open>/\<close> on
  finite numbers are exact: it is the algorithm in exact arithmetic, with no rounding,
  no overflow to an infinity and no underflow to zero. The values that are not finite
  numbers (\<^verbatim>\<open>undefined\<close>, \<^verbatim>\<open>NaN\<close>, the two infinities) are kept wherever the
  code can meet them: in what \<^verbatim>\<open>parseFloat\<close> returns for an input field, in the
  initial \<^verbatim>\<open>-Infinity\<close> of \<^verbatim>\<open>cmax\<close>, and in a read past the end of an array.
  The statements made on this embedding are those that no rounding can change: they
  rest on comparisons, or on which variables a function reads.

  In the second embedding (subsection The program on doubles, names ending in
  \<open>_dbl\<close>) every value is a double, an infinity or \<^verbatim>\<open>NaN\<close>, and every operation
  is the exact one followed by the rounding to the nearest double, with overflow to an
  infinity and underflow to zero: it is what the program computes. The statements
  about the step count, the times, the masses and the concentrations of a run are made
  on it.
\<close>

subsection \<open>JavaScript values\<close>

datatype jsval = Undefined | NaN | NInf | PInf | Fin real

text \<open>\<^verbatim>\<open>Number.isFinite(v)\<close>\<close>

fun isFinite :: "jsval \<Rightarrow> bool" where
  "isFinite (Fin x) = True"
| "isFinite v = False"

text \<open>
  The relational operators \<^verbatim>\<open>a > b\<close> and \<^verbatim>\<open>a >= b\<close>: the operands are
  converted to numbers (\<^verbatim>\<open>undefined\<close> becomes \<^verbatim>\<open>NaN\<close>), and a comparison with
  \<^verbatim>\<open>NaN\<close> is false.
\<close>

fun js_gt :: "jsval \<Rightarrow> jsval \<Rightarrow> bool" where
  "js_gt (Fin a) (Fin b) = (a > b)"
| "js_gt (Fin a) NInf = True"
| "js_gt PInf (Fin b) = True"
| "js_gt PInf NInf = True"
| "js_gt a b = False"

fun js_ge :: "jsval \<Rightarrow> jsval \<Rightarrow> bool" where
  "js_ge (Fin a) (Fin b) = (a \<ge> b)"
| "js_ge (Fin a) NInf = True"
| "js_ge PInf (Fin b) = True"
| "js_ge PInf NInf = True"
| "js_ge PInf PInf = True"
| "js_ge NInf NInf = True"
| "js_ge a b = False"

text \<open>
  \<^verbatim>\<open>a - b\<close>, \<^verbatim>\<open>a + b\<close> and \<^verbatim>\<open>a * b\<close> on values: exact on finite numbers,
  \<^verbatim>\<open>NaN\<close> as soon as an operand is \<^verbatim>\<open>undefined\<close> or \<^verbatim>\<open>NaN\<close>, and the
  IEEE rules for the infinities.
\<close>

fun js_neg :: "jsval \<Rightarrow> jsval" where
  "js_neg (Fin a) = Fin (- a)"
| "js_neg PInf = NInf"
| "js_neg NInf = PInf"
| "js_neg v = NaN"

fun js_add :: "jsval \<Rightarrow> jsval \<Rightarrow> jsval" where
  "js_add (Fin a) (Fin b) = Fin (a + b)"
| "js_add (Fin a) PInf = PInf"
| "js_add (Fin a) NInf = NInf"
| "js_add PInf (Fin b) = PInf"
| "js_add NInf (Fin b) = NInf"
| "js_add PInf PInf = PInf"
| "js_add NInf NInf = NInf"
| "js_add a b = NaN"

definition js_sub :: "jsval \<Rightarrow> jsval \<Rightarrow> jsval" where
  "js_sub a b = js_add a (js_neg b)"

text \<open>An infinity times a finite number: the sign decides, and zero gives \<^verbatim>\<open>NaN\<close>.\<close>

definition inf_times :: "bool \<Rightarrow> real \<Rightarrow> jsval" where
  "inf_times positive x =
     (if x = 0 then NaN else if (0 < x) = positive then PInf else NInf)"

fun js_mul :: "jsval \<Rightarrow> jsval \<Rightarrow> jsval" where
  "js_mul (Fin a) (Fin b) = Fin (a * b)"
| "js_mul (Fin a) PInf = inf_times True a"
| "js_mul (Fin a) NInf = inf_times False a"
| "js_mul PInf (Fin b) = inf_times True b"
| "js_mul NInf (Fin b) = inf_times False b"
| "js_mul PInf PInf = PInf"
| "js_mul NInf NInf = PInf"
| "js_mul PInf NInf = NInf"
| "js_mul NInf PInf = NInf"
| "js_mul a b = NaN"

text \<open>
  \<^verbatim>\<open>xs[i]\<close> on an array of finite numbers: \<^verbatim>\<open>undefined\<close> past the end.
\<close>

definition js_index :: "real list \<Rightarrow> nat \<Rightarrow> jsval" where
  "js_index xs i = (if i < length xs then Fin (xs ! i) else Undefined)"

text \<open>
  \<^verbatim>\<open>x.toFixed(f)\<close> gives a string of decimal digits. A string of digits is
  represented by the number it denotes. For a finite \<open>x\<close> below \<open>10^21\<close> in magnitude the
  digits are those of the integer \<open>n\<close> for which \<open>n / 10^f\<close> is nearest to \<open>|x|\<close>, the
  larger one on a tie, with the sign of \<open>x\<close>; from \<open>10^21\<close> on the string is that of the
  number itself.
\<close>

definition toFixed_num :: "nat \<Rightarrow> real \<Rightarrow> real" where
  "toFixed_num f x =
     (if \<bar>x\<bar> \<ge> 10 ^ 21 then x
      else sgn x * (of_int \<lfloor>\<bar>x\<bar> * 10 ^ f + 1 / 2\<rfloor> / 10 ^ f))"

datatype error = TypeError

text \<open>
  \<^verbatim>\<open>v.toFixed(f)\<close> on a value: a \<^verbatim>\<open>TypeError\<close> on \<^verbatim>\<open>undefined\<close>, the
  strings \<^verbatim>\<open>NaN\<close>, \<^verbatim>\<open>Infinity\<close> and \<^verbatim>\<open>-Infinity\<close> for the values of these names.
\<close>

fun toFixed :: "nat \<Rightarrow> jsval \<Rightarrow> error + jsval" where
  "toFixed f Undefined = Inl TypeError"
| "toFixed f (Fin x) = Inr (Fin (toFixed_num f x))"
| "toFixed f v = Inr v"

subsection \<open>The six parameters\<close>

text \<open>
  The objects \<^verbatim>\<open>inputs\<close>, \<^verbatim>\<open>displays\<close> and \<^verbatim>\<open>p\<close> have one entry for each
  of the six \<^verbatim>\<open>ids\<close>.
\<close>

record 'a ids =
  weight :: 'a
  bolus_mg :: 'a
  infusion_mg_min :: 'a
  infusion_duration_min :: 'a
  t_end_min :: 'a
  dt_min :: 'a

type_synonym params = "real ids"

text \<open>Marsh constants (per minute) and volumes (litres per kilogram).\<close>

definition k10 :: real where "k10 = 119 / 1000"
definition k12 :: real where "k12 = 112 / 1000"
definition k21 :: real where "k21 = 55 / 1000"
definition k13 :: real where "k13 = 42 / 1000"
definition k31 :: real where "k31 = 33 / 10000"

definition V1_per_kg :: real where "V1_per_kg = 228 / 1000"
definition V2_per_kg :: real where "V2_per_kg = 463 / 1000"
definition V3_per_kg :: real where "V3_per_kg = 2893 / 1000"

definition MAX_STEPS :: real where "MAX_STEPS = 20000"

subsection \<open>readParams\<close>

text \<open>
  The argument \<open>raw\<close> holds, for each id, the value of
  \<^verbatim>\<open>parseFloat(inputs[id].value)\<close>: a finite number, an infinity, or \<^verbatim>\<open>NaN\<close>
  when the text of the field is empty or not a number.

  The first loop writes each display: the number when it is finite, else 0.
\<close>

definition display_of :: "jsval \<Rightarrow> real" where
  "display_of v = (case v of Fin x \<Rightarrow> x | _ \<Rightarrow> 0)"

text \<open>
  The guardrails, lines 45 to 52: a field that is not finite or is out of range gets
  its default. The two shapes of test are \<^verbatim>\<open>!Number.isFinite(v) || v <= 0\<close> and
  \<^verbatim>\<open>!Number.isFinite(v) || v < 0\<close>.
\<close>

definition guard_positive :: "jsval \<Rightarrow> real \<Rightarrow> real" where
  "guard_positive v d = (case v of Fin x \<Rightarrow> (if x \<le> 0 then d else x) | _ \<Rightarrow> d)"

definition guard_nonneg :: "jsval \<Rightarrow> real \<Rightarrow> real" where
  "guard_nonneg v d = (case v of Fin x \<Rightarrow> (if x < 0 then d else x) | _ \<Rightarrow> d)"

definition guardrails :: "jsval ids \<Rightarrow> params" where
  "guardrails raw =
     \<lparr> weight = guard_positive (weight raw) 70,
       bolus_mg = guard_nonneg (bolus_mg raw) 0,
       infusion_mg_min = guard_nonneg (infusion_mg_min raw) 0,
       infusion_duration_min = guard_nonneg (infusion_duration_min raw) 0,
       t_end_min = guard_positive (t_end_min raw) 240,
       dt_min = guard_positive (dt_min raw) (2 / 10) \<rparr>"

text \<open>
  What \<^verbatim>\<open>readParams\<close> leaves behind: the parameters it returns, the text of the
  displays, and the text it wrote into the input field \<^verbatim>\<open>dt_min\<close> (\<open>None\<close> when it
  did not touch the field).
\<close>

record read_result =
  params_of :: params
  displays_of :: "real ids"
  input_dt_min_value :: "real option"

definition readParams :: "jsval ids \<Rightarrow> read_result" where
  "readParams raw =
     (let displays =
            \<lparr> weight = display_of (weight raw),
              bolus_mg = display_of (bolus_mg raw),
              infusion_mg_min = display_of (infusion_mg_min raw),
              infusion_duration_min = display_of (infusion_duration_min raw),
              t_end_min = display_of (t_end_min raw),
              dt_min = display_of (dt_min raw) \<rparr>;
          p = guardrails raw;
          steps = t_end_min p / dt_min p
      in if steps > MAX_STEPS
         then (let dt = t_end_min p / MAX_STEPS;
                   shown = toFixed_num 4 dt
               in \<lparr> params_of = p\<lparr>dt_min := dt\<rparr>,
                    displays_of = displays\<lparr>dt_min := shown\<rparr>,
                    input_dt_min_value = Some shown \<rparr>)
         else \<lparr> params_of = p, displays_of = displays, input_dt_min_value = None \<rparr>)"

text \<open>The constraints of a parameter set that went through the guardrails.\<close>

definition normalized :: "params \<Rightarrow> bool" where
  "normalized p \<longleftrightarrow>
     0 < weight p \<and> 0 \<le> bolus_mg p \<and> 0 \<le> infusion_mg_min p \<and>
     0 \<le> infusion_duration_min p \<and> 0 < t_end_min p \<and> 0 < dt_min p"

subsection \<open>doseRate and deriv\<close>

definition doseRate :: "real \<Rightarrow> params \<Rightarrow> real" where
  "doseRate t p =
     (if infusion_mg_min p \<le> 0 \<or> infusion_duration_min p \<le> 0 then 0
      else if t \<le> infusion_duration_min p then infusion_mg_min p else 0)"

definition deriv :: "real \<Rightarrow> real \<Rightarrow> real \<Rightarrow> real \<Rightarrow> params \<Rightarrow> real \<times> real \<times> real" where
  "deriv t a1 a2 a3 p =
     (let input = doseRate t p;
          dA1 = input + k21 * a2 + k31 * a3 - (k10 + k12 + k13) * a1;
          dA2 = k12 * a1 - k21 * a2;
          dA3 = k13 * a1 - k31 * a3
      in (dA1, dA2, dA3))"

subsection \<open>solveRK4\<close>

text \<open>The variables of the loop: the current point and the four arrays.\<close>

record rk4_state =
  cur_t :: real
  cur_A1 :: real
  cur_A2 :: real
  cur_A3 :: real
  arr_t :: "real list"
  arr_A1 :: "real list"
  arr_A2 :: "real list"
  arr_A3 :: "real list"

text \<open>
  Lines 103 to 110 of the loop body: the four slopes of the Runge-Kutta step of size
  \<open>h\<close> from \<open>(t, a1, a2, a3)\<close>, and the three masses after the update, before they
  are clamped.
\<close>

definition rk4_update :: "params \<Rightarrow> real \<Rightarrow> real \<Rightarrow> real \<Rightarrow> real \<Rightarrow> real \<Rightarrow> real \<times> real \<times> real" where
  "rk4_update p t h a1 a2 a3 =
     (let (k1_0, k1_1, k1_2) = deriv t a1 a2 a3 p;
          (k2_0, k2_1, k2_2) =
             deriv (t + 0.5 * h) (a1 + 0.5 * h * k1_0) (a2 + 0.5 * h * k1_1) (a3 + 0.5 * h * k1_2) p;
          (k3_0, k3_1, k3_2) =
             deriv (t + 0.5 * h) (a1 + 0.5 * h * k2_0) (a2 + 0.5 * h * k2_1) (a3 + 0.5 * h * k2_2) p;
          (k4_0, k4_1, k4_2) =
             deriv (t + h) (a1 + h * k3_0) (a2 + h * k3_1) (a3 + h * k3_2) p
      in (a1 + (h / 6) * (k1_0 + 2 * k2_0 + 2 * k3_0 + k4_0),
          a2 + (h / 6) * (k1_1 + 2 * k2_1 + 2 * k3_1 + k4_1),
          a3 + (h / 6) * (k1_2 + 2 * k2_2 + 2 * k3_2 + k4_2)))"

text \<open>
  The body of the loop after the test for \<^verbatim>\<open>break\<close>, lines 101 to 122: the step
  size, the update, the clamps \<^verbatim>\<open>Math.max(0, .)\<close>, the new time and the four
  \<^verbatim>\<open>push\<close>es.
\<close>

definition rk4_step :: "params \<Rightarrow> rk4_state \<Rightarrow> rk4_state" where
  "rk4_step p s =
     (let h = min (dt_min p) (t_end_min p - cur_t s);
          (u1, u2, u3) = rk4_update p (cur_t s) h (cur_A1 s) (cur_A2 s) (cur_A3 s);
          b1 = max 0 u1;
          b2 = max 0 u2;
          b3 = max 0 u3;
          t' = cur_t s + h
      in \<lparr> cur_t = t', cur_A1 = b1, cur_A2 = b2, cur_A3 = b3,
           arr_t = arr_t s @ [t'], arr_A1 = arr_A1 s @ [b1],
           arr_A2 = arr_A2 s @ [b2], arr_A3 = arr_A3 s @ [b3] \<rparr>)"

text \<open>
  \<^verbatim>\<open>for (let i = 0; i < nSteps; i++) { if (t >= p.t_end_min) break; ... }\<close>
\<close>

function rk4_loop :: "params \<Rightarrow> int \<Rightarrow> int \<Rightarrow> rk4_state \<Rightarrow> rk4_state" where
  "rk4_loop p nSteps i s =
     (if i < nSteps
      then (if cur_t s \<ge> t_end_min p then s
            else rk4_loop p nSteps (i + 1) (rk4_step p s))
      else s)"
  by pat_completeness auto
termination
  by (relation "measure (\<lambda>(p, nSteps, i, s). nat (nSteps - i))") auto

declare rk4_loop.simps [simp del]

record trace =
  sol_t :: "real list"
  sol_A1 :: "real list"
  sol_A2 :: "real list"
  sol_A3 :: "real list"
  sol_C1 :: "real list"

text \<open>
  \<^verbatim>\<open>solveRK4\<close> trusts its argument: with \<open>dt_min p = 0\<close> or \<open>weight p = 0\<close> the
  code divides by zero, which this model does not follow, so the statements about
  \<open>solveRK4\<close> are made for parameter sets with a positive step and a positive weight.
\<close>

definition rk4_init :: "params \<Rightarrow> rk4_state" where
  "rk4_init p =
     \<lparr> cur_t = 0, cur_A1 = bolus_mg p, cur_A2 = 0, cur_A3 = 0,
       arr_t = [0], arr_A1 = [bolus_mg p], arr_A2 = [0], arr_A3 = [0] \<rparr>"

definition solveRK4 :: "params \<Rightarrow> trace" where
  "solveRK4 p =
     (let nSteps = \<lceil>t_end_min p / dt_min p\<rceil>;
          s = rk4_loop p nSteps 0 (rk4_init p);
          V1 = V1_per_kg * weight p
      in \<lparr> sol_t = arr_t s, sol_A1 = arr_A1 s, sol_A2 = arr_A2 s, sol_A3 = arr_A3 s,
           sol_C1 = map (\<lambda>a. a / V1) (arr_A1 s) \<rparr>)"

subsection \<open>computeMetrics\<close>

record metrics =
  cmax :: jsval
  tmax :: jsval
  auc :: jsval

text \<open>
  One pass of the loop, lines 139 to 147. The reads of \<^verbatim>\<open>sol.C1\<close> are within the
  array (\<open>i\<close> is below its length); the reads of \<^verbatim>\<open>sol.t\<close> are \<^verbatim>\<open>undefined\<close>
  where \<^verbatim>\<open>sol.t\<close> is shorter.
\<close>

definition metrics_body :: "trace \<Rightarrow> nat \<Rightarrow> metrics \<Rightarrow> metrics" where
  "metrics_body sol i m =
     (let c = sol_C1 sol ! i;
          m1 = (if js_gt (Fin c) (cmax m)
                then m\<lparr>cmax := Fin c, tmax := js_index (sol_t sol) i\<rparr>
                else m)
      in if i > 0
         then (let dt = js_sub (js_index (sol_t sol) i) (js_index (sol_t sol) (i - 1))
               in m1\<lparr>auc := js_add (auc m1)
                      (js_mul (Fin (0.5 * (sol_C1 sol ! i + sol_C1 sol ! (i - 1)))) dt)\<rparr>)
         else m1)"


text \<open>
  The three texts written at the end, lines 150 to 152: \<open>None\<close> is the dash shown for
  \<^verbatim>\<open>out_cmax\<close> when \<^verbatim>\<open>cmax >= 0\<close> is false. A \<^verbatim>\<open>TypeError\<close> of
  \<^verbatim>\<open>toFixed\<close> ends the function.
\<close>

record outputs =
  out_cmax :: "jsval option"
  out_tmax :: jsval
  out_auc :: jsval

definition showMetrics :: "metrics \<Rightarrow> error + outputs" where
  "showMetrics m =
     (case (if js_ge (cmax m) (Fin 0) then map_sum id Some (toFixed 3 (cmax m)) else Inr None) of
        Inl e \<Rightarrow> Inl e
      | Inr c \<Rightarrow>
          (case toFixed 2 (tmax m) of
             Inl e \<Rightarrow> Inl e
           | Inr t \<Rightarrow>
               (case toFixed 2 (auc m) of
                  Inl e \<Rightarrow> Inl e
                | Inr a \<Rightarrow> Inr \<lparr> out_cmax = c, out_tmax = t, out_auc = a \<rparr>)))"

subsection \<open>The passes of computeMetrics\<close>

text \<open>
  The definitions below are used in the proofs only: \<open>metrics_after sol k\<close> is the
  state of \<^verbatim>\<open>computeMetrics\<close> after the passes \<open>0, ..., k - 1\<close>, and \<open>peak_inv\<close>
  says what \<open>cmax\<close> and \<open>tmax\<close> hold then.
\<close>

definition metrics_init :: metrics where
  "metrics_init = \<lparr> cmax = NInf, tmax = Fin 0, auc = Fin 0 \<rparr>"

definition metrics_after :: "trace \<Rightarrow> nat \<Rightarrow> metrics" where
  "metrics_after sol k = fold (metrics_body sol) [0 ..< k] metrics_init"


subsection \<open>IEEE-754 doubles\<close>

text \<open>
  \<open>fl64 x\<close> is the double nearest to the real \<open>x\<close>, the one with the even significand
  on a tie: with \<open>e\<close> the binary exponent of \<open>x\<close> (at least \<open>-1022\<close>, below which
  the doubles are subnormal) the doubles around \<open>x\<close> are the multiples of
  \<open>2^(e - 52)\<close>. The exponent has no upper limit in \<open>fl64\<close>; the overflow to an
  infinity is added by \<open>dbl\<close> below.

  \<open>bit_length n\<close> is the number of binary digits of \<open>n\<close>, \<open>pow2 e\<close> is \<open>2^e\<close> for an
  integer \<open>e\<close>, and \<open>binade x\<close>, for \<open>x > 0\<close>, is the \<open>e\<close> with
  \<open>2^e \<le> x < 2^(e + 1)\<close>.
\<close>

fun bit_length :: "nat \<Rightarrow> nat" where
  "bit_length n = (if n = 0 then 0 else Suc (bit_length (n div 2)))"

declare bit_length.simps [simp del]

definition pow2 :: "int \<Rightarrow> real" where
  "pow2 e = (if 0 \<le> e then 2 ^ nat e else 1 / 2 ^ nat (- e))"

definition binade :: "real \<Rightarrow> int" where
  "binade x = (if 1 \<le> x then int (bit_length (nat \<lfloor>x\<rfloor>)) - 1
               else - int (bit_length (nat (\<lceil>1 / x\<rceil> - 1))))"

definition round_half_even :: "real \<Rightarrow> int" where
  "round_half_even y =
     (let n = \<lfloor>y\<rfloor>; r = y - of_int n
      in if r < 1 / 2 then n else if 1 / 2 < r then n + 1 else if even n then n else n + 1)"

definition fl64 :: "real \<Rightarrow> real" where
  "fl64 x =
     (if x = 0 then 0
      else (let e = max (binade \<bar>x\<bar>) (- 1022); q = pow2 (e - 52)
            in of_int (round_half_even (x / q)) * q))"

text \<open>
  A double is a number that the rounding leaves as it is. \<open>ulp_exp x\<close> is the exponent
  of the spacing of the doubles around \<open>x\<close>.
\<close>

definition is_double :: "real \<Rightarrow> bool" where
  "is_double x \<longleftrightarrow> fl64 x = x"

definition ulp_exp :: "real \<Rightarrow> int" where
  "ulp_exp x = max (binade \<bar>x\<bar>) (- 1022) - 52"

text \<open>
  The result of an operation on doubles: the rounded exact result, or an infinity when
  the rounded result is \<open>2^1024\<close> or more in magnitude.
\<close>

definition dbl :: "real \<Rightarrow> jsval" where
  "dbl x =
     (let y = fl64 x
      in if 2 ^ 1024 \<le> y then PInf else if y \<le> - (2 ^ 1024) then NInf else Fin y)"

text \<open>
  \<^verbatim>\<open>a + b\<close>, \<^verbatim>\<open>a - b\<close>, \<^verbatim>\<open>a * b\<close> and \<^verbatim>\<open>a / b\<close> on doubles. With an
  infinity, \<^verbatim>\<open>NaN\<close> or \<^verbatim>\<open>undefined\<close> among the operands the result is that of
  \<open>js_add\<close>, \<open>js_neg\<close> and \<open>js_mul\<close>. The two zeros of the doubles are one value,
  \<open>Fin 0\<close>, and a division by it is a division by \<open>+0\<close>: the only division by a zero
  that a parameter set returned by \<^verbatim>\<open>readParams\<close> can reach is by
  \<^verbatim>\<open>V1 = V1_per_kg * p.weight\<close>, which is not negative.
\<close>

fun d_add :: "jsval \<Rightarrow> jsval \<Rightarrow> jsval" where
  "d_add (Fin a) (Fin b) = dbl (a + b)"
| "d_add a b = js_add a b"

definition d_sub :: "jsval \<Rightarrow> jsval \<Rightarrow> jsval" where
  "d_sub a b = d_add a (js_neg b)"

fun d_mul :: "jsval \<Rightarrow> jsval \<Rightarrow> jsval" where
  "d_mul (Fin a) (Fin b) = dbl (a * b)"
| "d_mul a b = js_mul a b"

fun d_div :: "jsval \<Rightarrow> jsval \<Rightarrow> jsval" where
  "d_div (Fin a) (Fin b) = (if b = 0 then inf_times True a else dbl (a / b))"
| "d_div (Fin a) PInf = Fin 0"
| "d_div (Fin a) NInf = Fin 0"
| "d_div PInf (Fin b) = (if 0 \<le> b then PInf else NInf)"
| "d_div NInf (Fin b) = (if 0 \<le> b then NInf else PInf)"
| "d_div a b = NaN"

text \<open>
  \<^verbatim>\<open>Math.ceil\<close>, \<^verbatim>\<open>Math.max\<close> and \<^verbatim>\<open>Math.min\<close> of two arguments, and
  \<^verbatim>\<open>a <= b\<close>. \<^verbatim>\<open>Math.max\<close> and \<^verbatim>\<open>Math.min\<close> give \<^verbatim>\<open>NaN\<close> as soon as
  an argument is \<^verbatim>\<open>NaN\<close>.
\<close>

fun math_ceil :: "jsval \<Rightarrow> jsval" where
  "math_ceil (Fin x) = Fin (of_int \<lceil>x\<rceil>)"
| "math_ceil Undefined = NaN"
| "math_ceil v = v"

definition is_nan :: "jsval \<Rightarrow> bool" where
  "is_nan v \<longleftrightarrow> v = NaN \<or> v = Undefined"

definition math_max :: "jsval \<Rightarrow> jsval \<Rightarrow> jsval" where
  "math_max a b = (if is_nan a \<or> is_nan b then NaN else if js_ge a b then a else b)"

definition math_min :: "jsval \<Rightarrow> jsval \<Rightarrow> jsval" where
  "math_min a b = (if is_nan a \<or> is_nan b then NaN else if js_ge a b then b else a)"

definition js_le :: "jsval \<Rightarrow> jsval \<Rightarrow> bool" where
  "js_le a b = js_ge b a"

subsection \<open>The time of the loop, with the rounding as a parameter\<close>

text \<open>
  The lines that decide the number of passes and the times of a run, with the rounding
  \<open>rnd\<close> of every operation as a parameter: the identity gives exact arithmetic,
  \<open>fl64\<close> gives the doubles as long as no result overflows. They are used to compare
  the two embeddings.

  Lines 56 to 58 of \<^verbatim>\<open>readParams\<close>: the step after the cap, for a horizon \<open>H\<close>
  and a requested step \<open>dt\<close> that passed the guardrails.
\<close>

definition cap_step :: "(real \<Rightarrow> real) \<Rightarrow> real \<Rightarrow> real \<Rightarrow> real" where
  "cap_step rnd H dt = (if rnd (H / dt) > MAX_STEPS then rnd (H / MAX_STEPS) else dt)"

text \<open>Line 97 of \<^verbatim>\<open>solveRK4\<close>: \<^verbatim>\<open>Math.ceil(p.t_end_min / p.dt_min)\<close>.\<close>

definition step_count :: "(real \<Rightarrow> real) \<Rightarrow> real \<Rightarrow> real \<Rightarrow> int" where
  "step_count rnd H dt = \<lceil>rnd (H / dt)\<rceil>"

text \<open>
  The time of the loop of \<^verbatim>\<open>solveRK4\<close>, lines 99 to 101 and 117 to 119:
  \<^verbatim>\<open>if (t >= p.t_end_min) break\<close>, \<^verbatim>\<open>h = Math.min(p.dt_min, p.t_end_min - t)\<close>,
  \<^verbatim>\<open>t += h\<close>, \<^verbatim>\<open>arr_t.push(t)\<close>. The masses have no part in it.
\<close>

function times_loop ::
  "(real \<Rightarrow> real) \<Rightarrow> real \<Rightarrow> real \<Rightarrow> int \<Rightarrow> int \<Rightarrow> real \<Rightarrow> real list \<Rightarrow> real list" where
  "times_loop rnd H dt nSteps i t arr =
     (if i < nSteps
      then (if t \<ge> H then arr
            else (let h = min dt (rnd (H - t)); t' = rnd (t + h)
                  in times_loop rnd H dt nSteps (i + 1) t' (arr @ [t'])))
      else arr)"
  by pat_completeness auto
termination
  by (relation "measure (\<lambda>(rnd, H, dt, nSteps, i, t, arr). nat (nSteps - i))") auto

declare times_loop.simps [simp del]

text \<open>The array \<^verbatim>\<open>arr_t\<close> that \<^verbatim>\<open>solveRK4\<close> returns as \<^verbatim>\<open>sol.t\<close>.\<close>

definition sol_times :: "(real \<Rightarrow> real) \<Rightarrow> params \<Rightarrow> real list" where
  "sol_times rnd p =
     times_loop rnd (t_end_min p) (dt_min p) (step_count rnd (t_end_min p) (dt_min p)) 0 0 [0]"

text \<open>What every pass of the loop keeps on doubles (used in the proofs only).\<close>

definition time_inv_fl64 :: "real \<Rightarrow> real \<Rightarrow> real \<Rightarrow> real list \<Rightarrow> bool" where
  "time_inv_fl64 H dt t arr \<longleftrightarrow>
     is_double t \<and> 0 \<le> t \<and> t \<le> H \<and> (t = 0 \<or> dt \<le> t \<or> t = H) \<and>
     arr \<noteq> [] \<and> last arr = t \<and> (\<forall>x \<in> set arr. 0 \<le> x \<and> x \<le> H)"

subsection \<open>The program on doubles\<close>

text \<open>
  The functions of the program once more, on doubles. A parameter set holds doubles:
  the numbers that \<^verbatim>\<open>parseFloat\<close> returned, or the defaults.

  The constants of lines 26 to 33 are the doubles nearest to the decimal numbers
  written there.
\<close>

definition k10_dbl :: jsval where "k10_dbl = Fin (fl64 (119 / 1000))"

definition k12_dbl :: jsval where "k12_dbl = Fin (fl64 (112 / 1000))"

definition k21_dbl :: jsval where "k21_dbl = Fin (fl64 (55 / 1000))"

definition k13_dbl :: jsval where "k13_dbl = Fin (fl64 (42 / 1000))"

definition k31_dbl :: jsval where "k31_dbl = Fin (fl64 (33 / 10000))"

definition V1_per_kg_dbl :: jsval where "V1_per_kg_dbl = Fin (fl64 (228 / 1000))"

text \<open>
  \<^verbatim>\<open>doseRate\<close>, lines 68 to 71, and \<^verbatim>\<open>deriv\<close>, lines 74 to 80. The sums are taken
  from left to right, as JavaScript does:
  \<^verbatim>\<open>input + k21*A2 + k31*A3 - (k10 + k12 + k13)*A1\<close> is
  \<^verbatim>\<open>((input + k21*A2) + k31*A3) - ((k10 + k12) + k13)*A1\<close>.
\<close>

definition doseRate_dbl :: "jsval \<Rightarrow> params \<Rightarrow> jsval" where
  "doseRate_dbl t p =
     (if infusion_mg_min p \<le> 0 \<or> infusion_duration_min p \<le> 0 then Fin 0
      else if js_le t (Fin (infusion_duration_min p)) then Fin (infusion_mg_min p) else Fin 0)"

definition deriv_dbl :: "jsval \<Rightarrow> jsval \<Rightarrow> jsval \<Rightarrow> jsval \<Rightarrow> params \<Rightarrow> jsval \<times> jsval \<times> jsval" where
  "deriv_dbl t a1 a2 a3 p =
     (let input = doseRate_dbl t p;
          dA1 = d_sub (d_add (d_add input (d_mul k21_dbl a2)) (d_mul k31_dbl a3))
                      (d_mul (d_add (d_add k10_dbl k12_dbl) k13_dbl) a1);
          dA2 = d_sub (d_mul k12_dbl a1) (d_mul k21_dbl a2);
          dA3 = d_sub (d_mul k13_dbl a1) (d_mul k31_dbl a3)
      in (dA1, dA2, dA3))"

text \<open>
  Lines 103 to 110 of the loop body. \<open>rk4_slope_sum\<close> is the sum
  \<^verbatim>\<open>k1[j] + 2*k2[j] + 2*k3[j] + k4[j]\<close> of lines 108 to 110, and \<^verbatim>\<open>0.5*h*k1[0]\<close>
  is \<^verbatim>\<open>(0.5*h)*k1[0]\<close>.
\<close>

definition rk4_slope_sum :: "jsval \<Rightarrow> jsval \<Rightarrow> jsval \<Rightarrow> jsval \<Rightarrow> jsval" where
  "rk4_slope_sum k1 k2 k3 k4 =
     d_add (d_add (d_add k1 (d_mul (Fin 2) k2)) (d_mul (Fin 2) k3)) k4"

definition rk4_update_dbl ::
  "params \<Rightarrow> jsval \<Rightarrow> jsval \<Rightarrow> jsval \<Rightarrow> jsval \<Rightarrow> jsval \<Rightarrow> jsval \<times> jsval \<times> jsval" where
  "rk4_update_dbl p t h a1 a2 a3 =
     (let hh = d_mul (Fin (1 / 2)) h;
          (k1_0, k1_1, k1_2) = deriv_dbl t a1 a2 a3 p;
          (k2_0, k2_1, k2_2) =
             deriv_dbl (d_add t hh) (d_add a1 (d_mul hh k1_0)) (d_add a2 (d_mul hh k1_1))
               (d_add a3 (d_mul hh k1_2)) p;
          (k3_0, k3_1, k3_2) =
             deriv_dbl (d_add t hh) (d_add a1 (d_mul hh k2_0)) (d_add a2 (d_mul hh k2_1))
               (d_add a3 (d_mul hh k2_2)) p;
          (k4_0, k4_1, k4_2) =
             deriv_dbl (d_add t h) (d_add a1 (d_mul h k3_0)) (d_add a2 (d_mul h k3_1))
               (d_add a3 (d_mul h k3_2)) p;
          h6 = d_div h (Fin 6)
      in (d_add a1 (d_mul h6 (rk4_slope_sum k1_0 k2_0 k3_0 k4_0)),
          d_add a2 (d_mul h6 (rk4_slope_sum k1_1 k2_1 k3_1 k4_1)),
          d_add a3 (d_mul h6 (rk4_slope_sum k1_2 k2_2 k3_2 k4_2))))"

text \<open>
  The variables of the loop, and its body after the test for \<^verbatim>\<open>break\<close>, lines 101
  to 122.
\<close>

record rk4_state_dbl =
  t_dbl :: jsval
  A1_dbl :: jsval
  A2_dbl :: jsval
  A3_dbl :: jsval
  arr_t_dbl :: "jsval list"
  arr_A1_dbl :: "jsval list"
  arr_A2_dbl :: "jsval list"
  arr_A3_dbl :: "jsval list"

definition rk4_step_dbl :: "params \<Rightarrow> rk4_state_dbl \<Rightarrow> rk4_state_dbl" where
  "rk4_step_dbl p s =
     (let h = math_min (Fin (dt_min p)) (d_sub (Fin (t_end_min p)) (t_dbl s));
          (u1, u2, u3) = rk4_update_dbl p (t_dbl s) h (A1_dbl s) (A2_dbl s) (A3_dbl s);
          b1 = math_max (Fin 0) u1;
          b2 = math_max (Fin 0) u2;
          b3 = math_max (Fin 0) u3;
          t' = d_add (t_dbl s) h
      in \<lparr> t_dbl = t', A1_dbl = b1, A2_dbl = b2, A3_dbl = b3,
           arr_t_dbl = arr_t_dbl s @ [t'], arr_A1_dbl = arr_A1_dbl s @ [b1],
           arr_A2_dbl = arr_A2_dbl s @ [b2], arr_A3_dbl = arr_A3_dbl s @ [b3] \<rparr>)"

text \<open>
  \<^verbatim>\<open>for (let i = 0; i < nSteps; i++) { if (t >= p.t_end_min) break; ... }\<close> The bound
  \<^verbatim>\<open>nSteps\<close> is a value: it is \<^verbatim>\<open>Infinity\<close> when the quotient of line 97
  overflows, and then only the \<^verbatim>\<open>break\<close> ends the loop. The result is \<open>None\<close> when
  the loop does not end.
\<close>

partial_function (option) rk4_loop_dbl ::
  "params \<Rightarrow> jsval \<Rightarrow> nat \<Rightarrow> rk4_state_dbl \<Rightarrow> rk4_state_dbl option" where
  "rk4_loop_dbl p nSteps i s =
     (if js_gt nSteps (Fin (of_nat i))
      then (if js_ge (t_dbl s) (Fin (t_end_min p)) then Some s
            else rk4_loop_dbl p nSteps (i + 1) (rk4_step_dbl p s))
      else Some s)"

record trace_dbl =
  sol_t_dbl :: "jsval list"
  sol_A1_dbl :: "jsval list"
  sol_A2_dbl :: "jsval list"
  sol_A3_dbl :: "jsval list"
  sol_C1_dbl :: "jsval list"

definition rk4_init_dbl :: "params \<Rightarrow> rk4_state_dbl" where
  "rk4_init_dbl p =
     \<lparr> t_dbl = Fin 0, A1_dbl = Fin (bolus_mg p), A2_dbl = Fin 0, A3_dbl = Fin 0,
       arr_t_dbl = [Fin 0], arr_A1_dbl = [Fin (bolus_mg p)], arr_A2_dbl = [Fin 0],
       arr_A3_dbl = [Fin 0] \<rparr>"

definition nSteps_dbl :: "params \<Rightarrow> jsval" where
  "nSteps_dbl p = math_ceil (d_div (Fin (t_end_min p)) (Fin (dt_min p)))"

text \<open>
  \<^verbatim>\<open>solveRK4\<close>, lines 83 to 130: \<^verbatim>\<open>V1 = V1_per_kg * p.weight\<close> and
  \<^verbatim>\<open>arr_C1 = arr_A1.map(a => a / V1)\<close> are operations on doubles as well.
\<close>

definition solveRK4_dbl :: "params \<Rightarrow> trace_dbl option" where
  "solveRK4_dbl p =
     (case rk4_loop_dbl p (nSteps_dbl p) 0 (rk4_init_dbl p) of
        None \<Rightarrow> None
      | Some s \<Rightarrow>
          (let V1 = d_mul V1_per_kg_dbl (Fin (weight p))
           in Some \<lparr> sol_t_dbl = arr_t_dbl s, sol_A1_dbl = arr_A1_dbl s,
                     sol_A2_dbl = arr_A2_dbl s, sol_A3_dbl = arr_A3_dbl s,
                     sol_C1_dbl = map (\<lambda>a. d_div a V1) (arr_A1_dbl s) \<rparr>))"

text \<open>
  \<^verbatim>\<open>computeMetrics\<close>, lines 134 to 148, on such a trace; \<^verbatim>\<open>xs[i]\<close> is
  \<^verbatim>\<open>undefined\<close> past the end of the array. The three texts of lines 150 to 152 are
  those of \<open>showMetrics\<close>.
\<close>

definition val_index :: "jsval list \<Rightarrow> nat \<Rightarrow> jsval" where
  "val_index xs i = (if i < length xs then xs ! i else Undefined)"

definition metrics_body_dbl :: "trace_dbl \<Rightarrow> nat \<Rightarrow> metrics \<Rightarrow> metrics" where
  "metrics_body_dbl sol i m =
     (let c = sol_C1_dbl sol ! i;
          m1 = (if js_gt c (cmax m)
                then m\<lparr>cmax := c, tmax := val_index (sol_t_dbl sol) i\<rparr>
                else m)
      in if i > 0
         then (let dt = d_sub (val_index (sol_t_dbl sol) i) (val_index (sol_t_dbl sol) (i - 1))
               in m1\<lparr>auc := d_add (auc m1)
                      (d_mul (d_mul (Fin (1 / 2))
                                (d_add (sol_C1_dbl sol ! i) (sol_C1_dbl sol ! (i - 1)))) dt)\<rparr>)
         else m1)"

definition computeMetrics_dbl :: "trace_dbl \<Rightarrow> metrics" where
  "computeMetrics_dbl sol =
     fold (metrics_body_dbl sol) [0 ..< length (sol_C1_dbl sol)]
       \<lparr> cmax = NInf, tmax = Fin 0, auc = Fin 0 \<rparr>"

text \<open>
  \<^verbatim>\<open>readParams\<close>, lines 37 to 65. The guardrails are comparisons; the default of the
  step is the double nearest to 0.2. The quotient of line 56 can overflow to
  \<^verbatim>\<open>Infinity\<close>; the quotient of line 58, of a finite horizon by 20000, cannot.
  \<^verbatim>\<open>toFixed(4)\<close> is applied to the double, and gives the decimal digits of its
  exact value.
\<close>

definition guardrails_dbl :: "jsval ids \<Rightarrow> params" where
  "guardrails_dbl raw =
     \<lparr> weight = guard_positive (weight raw) 70,
       bolus_mg = guard_nonneg (bolus_mg raw) 0,
       infusion_mg_min = guard_nonneg (infusion_mg_min raw) 0,
       infusion_duration_min = guard_nonneg (infusion_duration_min raw) 0,
       t_end_min = guard_positive (t_end_min raw) 240,
       dt_min = guard_positive (dt_min raw) (fl64 (2 / 10)) \<rparr>"

definition readParams_dbl :: "jsval ids \<Rightarrow> read_result" where
  "readParams_dbl raw =
     (let displays =
            \<lparr> weight = display_of (weight raw),
              bolus_mg = display_of (bolus_mg raw),
              infusion_mg_min = display_of (infusion_mg_min raw),
              infusion_duration_min = display_of (infusion_duration_min raw),
              t_end_min = display_of (t_end_min raw),
              dt_min = display_of (dt_min raw) \<rparr>;
          p = guardrails_dbl raw;
          steps = d_div (Fin (t_end_min p)) (Fin (dt_min p))
      in if js_gt steps (Fin MAX_STEPS)
         then (let dt = fl64 (t_end_min p / MAX_STEPS);
                   shown = toFixed_num 4 dt
               in \<lparr> params_of = p\<lparr>dt_min := dt\<rparr>,
                    displays_of = displays\<lparr>dt_min := shown\<rparr>,
                    input_dt_min_value = Some shown \<rparr>)
         else \<lparr> params_of = p, displays_of = displays, input_dt_min_value = None \<rparr>)"

text \<open>What every pass of the loop keeps of the masses (used in the proofs only).\<close>

definition mass_inv_dbl :: "rk4_state_dbl \<Rightarrow> bool" where
  "mass_inv_dbl s \<longleftrightarrow>
     (\<forall>m \<in> set (arr_A1_dbl s) \<union> set (arr_A2_dbl s) \<union> set (arr_A3_dbl s).
        m = NaN \<or> js_ge m (Fin 0))"

subsection \<open>Inputs used as examples\<close>

text \<open>
  \<open>typed H dt\<close> is what \<^verbatim>\<open>parseFloat\<close> returns for the six fields when the
  decimal numbers \<open>H\<close> and \<open>dt\<close> are typed as the horizon and the step, with a weight
  of 70, a bolus of 100 and no infusion. The step of \<open>p_tenth\<close> and of \<open>p_sixty\<close> is
  the double nearest to 0.1. The bolus of \<open>raw_overflow\<close> is the double \<open>2^1023\<close>
  (8.98846567431158e307) and the weight of \<open>raw_underflow\<close> is the smallest positive
  double \<open>2^-1074\<close> (5e-324); \<open>p_overflow\<close> and \<open>p_underflow\<close> are the parameter sets
  that \<^verbatim>\<open>readParams\<close> returns for them.
\<close>

definition p_infusion :: params where
  "p_infusion = \<lparr> weight = 70, bolus_mg = 0, infusion_mg_min = 10, infusion_duration_min = 30,
     t_end_min = 240, dt_min = 2 / 10 \<rparr>"


definition typed :: "real \<Rightarrow> real \<Rightarrow> jsval ids" where
  "typed H dt =
     \<lparr> weight = Fin 70, bolus_mg = Fin 100, infusion_mg_min = Fin 0,
       infusion_duration_min = Fin 0, t_end_min = Fin (fl64 H), dt_min = Fin (fl64 dt) \<rparr>"

definition p_tenth :: params where
  "p_tenth = \<lparr> weight = 70, bolus_mg = 100, infusion_mg_min = 0, infusion_duration_min = 0,
     t_end_min = 1, dt_min = 3602879701896397 / 36028797018963968 \<rparr>"

definition p_sixty :: params where
  "p_sixty = \<lparr> weight = 70, bolus_mg = 100, infusion_mg_min = 0, infusion_duration_min = 0,
     t_end_min = 6, dt_min = 3602879701896397 / 36028797018963968 \<rparr>"

definition raw_overflow :: "jsval ids" where
  "raw_overflow = \<lparr> weight = Fin 70, bolus_mg = Fin (2 ^ 1023), infusion_mg_min = Fin 0,
     infusion_duration_min = Fin 0, t_end_min = Fin 128, dt_min = Fin 128 \<rparr>"

definition p_overflow :: params where
  "p_overflow =
     \<lparr> weight = 70, bolus_mg = 2 ^ 1023, infusion_mg_min = 0, infusion_duration_min = 0,
       t_end_min = 128, dt_min = 128 \<rparr>"

definition raw_underflow :: "jsval ids" where
  "raw_underflow = \<lparr> weight = Fin (1 / 2 ^ 1074), bolus_mg = Fin 0, infusion_mg_min = Fin 0,
     infusion_duration_min = Fin 0, t_end_min = Fin 1, dt_min = Fin 1 \<rparr>"

definition p_underflow :: params where
  "p_underflow =
     \<lparr> weight = 1 / 2 ^ 1074, bolus_mg = 0, infusion_mg_min = 0, infusion_duration_min = 0,
       t_end_min = 1, dt_min = 1 \<rparr>"

section \<open>Rounding to a double\<close>

lemmas fl64_eval = fl64_def binade_def bit_length.simps pow2_def round_half_even_def Let_def

lemma pow2_pos: "0 < pow2 e"
  by (simp add: pow2_def)

lemma pow2_nat: "pow2 (int n) = 2 ^ n"
  by (simp add: pow2_def)

lemma pow2_neg_nat: "pow2 (- int n) = 1 / 2 ^ n"
proof (cases n)
  case 0
  then show ?thesis by (simp add: pow2_def)
next
  case (Suc m)
  then have "\<not> 0 \<le> - int n" "nat (- (- int n)) = n" by simp_all
  then show ?thesis unfolding pow2_def by simp
qed

lemma pow2_add: "pow2 (a + b) = pow2 a * pow2 b"
proof -
  have "pow2 e = 2 powi e" for e
    by (simp add: pow2_def power_int_def field_simps)
  then show ?thesis by (simp add: power_int_add)
qed

lemma pow2_mono: "a \<le> b \<Longrightarrow> pow2 a \<le> pow2 b"
proof -
  assume "a \<le> b"
  then obtain k where "b = a + int k" using zle_iff_zadd by blast
  moreover have "1 \<le> pow2 (int k)" by (simp add: pow2_def)
  ultimately show ?thesis using pow2_pos [of a] by (simp add: pow2_add)
qed

lemma pow2_less_mono: "a < b \<Longrightarrow> pow2 a < pow2 b"
proof -
  assume "a < b"
  then obtain k where k: "b = a + int (Suc k)"
    by (metis zless_iff_Suc_zadd)
  have "(1::real) < 2 ^ Suc k" by (rule one_less_power) simp_all
  then have "1 < pow2 (int (Suc k))" by (simp only: pow2_nat)
  then show ?thesis using pow2_pos [of a] by (simp add: k pow2_add del: of_nat_Suc)
qed

lemma pow2_le_cancel: "pow2 a \<le> pow2 b \<Longrightarrow> a \<le> b"
  using pow2_less_mono [of b a] by (cases "a \<le> b") auto

lemma bit_length_upper: "n < 2 ^ bit_length n"
proof (induction n rule: bit_length.induct)
  case (1 n)
  show ?case
  proof (cases "n = 0")
    case True
    then show ?thesis by (simp add: bit_length.simps)
  next
    case False
    then have "n div 2 < 2 ^ bit_length (n div 2)" using 1 by simp
    then have "n < 2 * 2 ^ bit_length (n div 2)" by linarith
    then show ?thesis using False by (subst bit_length.simps) simp
  qed
qed

lemma bit_length_lower: "0 < n \<Longrightarrow> 2 ^ (bit_length n - 1) \<le> n"
proof (induction n rule: bit_length.induct)
  case (1 n)
  show ?case
  proof (cases "n div 2 = 0")
    case True
    then have "bit_length n = 1" using "1.prems"
      by (subst bit_length.simps, subst bit_length.simps) simp
    then show ?thesis using "1.prems" by simp
  next
    case False
    then have "2 ^ (bit_length (n div 2) - 1) \<le> n div 2" using 1 by simp
    moreover have "0 < bit_length (n div 2)" using False by (subst bit_length.simps) simp
    moreover have "bit_length n = Suc (bit_length (n div 2))"
      using "1.prems" by (subst bit_length.simps) simp
    ultimately have "2 ^ (bit_length n - 1) \<le> 2 * (n div 2)"
      by (cases "bit_length (n div 2)") simp_all
    then show ?thesis by linarith
  qed
qed

lemma binade_lower: assumes "0 < x" shows "pow2 (binade x) \<le> x"
proof (cases "1 \<le> x")
  case True
  then have pos: "0 < nat \<lfloor>x\<rfloor>" by simp
  have "binade x = int (bit_length (nat \<lfloor>x\<rfloor>) - 1)"
    using True bit_length_upper [of "nat \<lfloor>x\<rfloor>"] pos
    by (cases "bit_length (nat \<lfloor>x\<rfloor>)") (simp_all add: binade_def)
  then have "pow2 (binade x) = 2 ^ (bit_length (nat \<lfloor>x\<rfloor>) - 1)"
    by (simp add: pow2_def)
  also have "\<dots> = real (2 ^ (bit_length (nat \<lfloor>x\<rfloor>) - 1))" by simp
  also have "\<dots> \<le> real (nat \<lfloor>x\<rfloor>)"
    using bit_length_lower [OF pos] by (rule of_nat_mono)
  also have "\<dots> \<le> x" using True by simp
  finally show ?thesis .
next
  case False
  let ?n = "nat (\<lceil>1 / x\<rceil> - 1)"
  let ?k = "bit_length ?n"
  have "Suc ?n \<le> 2 ^ ?k"
    using bit_length_upper [of ?n] by (rule Suc_leI)
  then have "real (Suc ?n) \<le> real (2 ^ ?k)" by (rule of_nat_mono)
  then have up: "real ?n + 1 \<le> 2 ^ ?k" by simp
  have "0 < \<lceil>1 / x\<rceil>" using assms by simp
  then have "real ?n = of_int \<lceil>1 / x\<rceil> - 1" by simp
  then have "1 / x \<le> real ?n + 1" by simp
  with up have "1 / x \<le> 2 ^ ?k" by linarith
  then have "1 / 2 ^ ?k \<le> x" using assms by (simp add: field_simps)
  moreover have "pow2 (binade x) = 1 / 2 ^ ?k"
    using False by (simp add: binade_def pow2_def)
  ultimately show ?thesis by simp
qed

lemma binade_upper: assumes "0 < x" shows "x < pow2 (binade x + 1)"
proof (cases "1 \<le> x")
  case True
  let ?n = "nat \<lfloor>x\<rfloor>"
  have "Suc ?n \<le> 2 ^ bit_length ?n" using bit_length_upper [of ?n] by (rule Suc_leI)
  then have "real (Suc ?n) \<le> real (2 ^ bit_length ?n)" by (rule of_nat_mono)
  then have "real ?n + 1 \<le> 2 ^ bit_length ?n" by simp
  moreover have "x < real ?n + 1" using True by simp
  moreover have "pow2 (binade x + 1) = 2 ^ bit_length ?n"
    using True by (simp add: binade_def pow2_def)
  ultimately show ?thesis by simp
next
  case False
  let ?n = "nat (\<lceil>1 / x\<rceil> - 1)"
  let ?k = "bit_length ?n"
  have x1: "1 < 1 / x" using assms False by simp
  then have c: "1 < \<lceil>1 / x\<rceil>" by (simp add: less_ceiling_iff)
  then have pos: "0 < ?n" by simp
  then have k: "0 < ?k" by (subst bit_length.simps) simp
  have "real (2 ^ (?k - 1)) \<le> real ?n" using bit_length_lower [OF pos] by (rule of_nat_mono)
  moreover have "real ?n = of_int \<lceil>1 / x\<rceil> - 1"
  proof -
    from c have "0 \<le> \<lceil>1 / x\<rceil> - 1" by linarith
    then have "real ?n = of_int (\<lceil>1 / x\<rceil> - 1)" by (rule of_nat_nat)
    then show ?thesis by simp
  qed
  moreover have "of_int \<lceil>1 / x\<rceil> - 1 < 1 / x" by linarith
  ultimately have "2 ^ (?k - 1) < 1 / x" by simp
  then have "x < 1 / 2 ^ (?k - 1)" using assms by (simp add: field_simps)
  moreover have "pow2 (binade x + 1) = 1 / 2 ^ (?k - 1)"
  proof -
    have "binade x + 1 = - int (?k - 1)" using False k by (simp add: binade_def)
    then show ?thesis by (simp only: pow2_neg_nat)
  qed
  ultimately show ?thesis by simp
qed

lemma binade_eqI: assumes "pow2 e \<le> x" "x < pow2 (e + 1)" shows "binade x = e"
proof -
  have pos: "0 < x" using assms(1) pow2_pos [of e] by linarith
  have "\<not> binade x < e"
  proof
    assume "binade x < e"
    then have "pow2 (binade x + 1) \<le> pow2 e" by (intro pow2_mono) simp
    with binade_upper [OF pos] assms(1) show False by linarith
  qed
  moreover have "\<not> e < binade x"
  proof
    assume "e < binade x"
    then have "pow2 (e + 1) \<le> pow2 (binade x)" by (intro pow2_mono) simp
    with binade_lower [OF pos] assms(2) show False by linarith
  qed
  ultimately show ?thesis by linarith
qed

lemma binade_mono:
  assumes "0 < x" "x \<le> y"
  shows "binade x \<le> binade y"
proof (rule ccontr)
  assume "\<not> binade x \<le> binade y"
  then have "pow2 (binade y + 1) \<le> pow2 (binade x)" by (intro pow2_mono) simp
  moreover have "y < pow2 (binade y + 1)" using assms by (intro binade_upper) simp
  moreover have "pow2 (binade x) \<le> x" using assms(1) by (rule binade_lower)
  ultimately show False using assms(2) by linarith
qed

lemma round_half_even_close: "\<bar>of_int (round_half_even y) - y\<bar> \<le> 1 / 2"
  by (simp add: round_half_even_def Let_def)

lemma round_half_even_of_int: "round_half_even (of_int n) = n"
  by (simp add: round_half_even_def)

lemma round_half_even_range: "\<lfloor>y\<rfloor> \<le> round_half_even y \<and> round_half_even y \<le> \<lfloor>y\<rfloor> + 1"
  by (simp add: round_half_even_def Let_def)

lemma round_half_even_mono:
  assumes "x \<le> y"
  shows "round_half_even x \<le> round_half_even y"
proof (cases "\<lfloor>x\<rfloor> = \<lfloor>y\<rfloor>")
  case True
  then have "x - of_int \<lfloor>x\<rfloor> \<le> y - of_int \<lfloor>y\<rfloor>" using assms by simp
  then show ?thesis using True by (auto simp: round_half_even_def Let_def)
next
  case False
  have "\<lfloor>x\<rfloor> \<le> \<lfloor>y\<rfloor>" using assms by (rule floor_mono)
  with False have "\<lfloor>x\<rfloor> + 1 \<le> \<lfloor>y\<rfloor>" by linarith
  then show ?thesis
    using round_half_even_range [of x] round_half_even_range [of y] by linarith
qed

lemma round_half_even_minus: "round_half_even (- y) = - round_half_even y"
proof (cases "y = of_int \<lfloor>y\<rfloor>")
  case True
  then obtain n :: int where "y = of_int n" by blast
  then have "round_half_even (- y) = round_half_even (of_int (- n))" by simp
  also have "\<dots> = - n" by (simp only: round_half_even_of_int)
  finally show ?thesis using \<open>y = of_int n\<close> by (simp add: round_half_even_of_int)
next
  case False
  define n where "n = \<lfloor>y\<rfloor>"
  define r where "r = y - of_int n"
  have r0: "0 < r" using False unfolding r_def n_def
    by (metis diff_gt_0_iff_gt less_eq_real_def of_int_floor_le)
  have r1: "r < 1" unfolding r_def n_def by linarith
  have y: "y = of_int n + r" unfolding r_def by simp
  have fl: "\<lfloor>- y\<rfloor> = - n - 1" unfolding y using r0 r1 by (intro floor_unique) simp_all
  have r': "- y - of_int (- n - 1) = 1 - r" unfolding r_def by simp
  have a: "round_half_even y =
     (if r < 1 / 2 then n else if 1 / 2 < r then n + 1 else if even n then n else n + 1)"
    by (simp only: round_half_even_def Let_def n_def [symmetric] r_def [symmetric])
  have b: "round_half_even (- y) =
     (if 1 - r < 1 / 2 then - n - 1 else if 1 / 2 < 1 - r then - n - 1 + 1
      else if even (- n - 1) then - n - 1 else - n - 1 + 1)"
    by (simp only: round_half_even_def Let_def fl r')
  show ?thesis unfolding a b by auto
qed

text \<open>
  The rounding moves a number by half a unit in the last place at most, which is a
  relative error of \<open>2^-53\<close> outside the subnormal range.
\<close>

lemma fl64_error:
  assumes "x \<noteq> 0"
  shows "\<bar>fl64 x - x\<bar> \<le> pow2 (max (binade \<bar>x\<bar>) (- 1022) - 52) / 2"
proof -
  let ?q = "pow2 (max (binade \<bar>x\<bar>) (- 1022) - 52)"
  have q: "0 < ?q" by (rule pow2_pos)
  have "fl64 x - x = (of_int (round_half_even (x / ?q)) - x / ?q) * ?q"
    using assms q by (simp add: fl64_def Let_def algebra_simps)
  then have "\<bar>fl64 x - x\<bar> = \<bar>of_int (round_half_even (x / ?q)) - x / ?q\<bar> * ?q"
    using q by (simp add: abs_mult)
  also have "\<dots> \<le> (1 / 2) * ?q"
    using round_half_even_close [of "x / ?q"] q by (intro mult_right_mono) simp_all
  finally show ?thesis by simp
qed

lemma fl64_relative_error:
  assumes "pow2 (- 1022) \<le> \<bar>x\<bar>"
  shows "\<bar>fl64 x - x\<bar> \<le> \<bar>x\<bar> / 2 ^ 53"
proof -
  have pos: "0 < \<bar>x\<bar>" using assms pow2_pos [of "- 1022"] by linarith
  then have nz: "x \<noteq> 0" by simp
  have "\<not> binade \<bar>x\<bar> < - 1022"
  proof
    assume "binade \<bar>x\<bar> < - 1022"
    then have "pow2 (binade \<bar>x\<bar> + 1) \<le> pow2 (- 1022)" by (intro pow2_mono) simp
    with binade_upper [OF pos] assms show False by linarith
  qed
  then have "max (binade \<bar>x\<bar>) (- 1022) = binade \<bar>x\<bar>" by simp
  then have "\<bar>fl64 x - x\<bar> \<le> pow2 (binade \<bar>x\<bar> - 52) / 2"
    using fl64_error [OF nz] by simp
  also have "pow2 (binade \<bar>x\<bar> - 52) = pow2 (binade \<bar>x\<bar>) * pow2 (- 52)"
    using pow2_add [of "binade \<bar>x\<bar>" "- 52"] by simp
  also have "pow2 (- 52) = 1 / 2 ^ 52" using pow2_neg_nat [of 52] by simp
  also have "pow2 (binade \<bar>x\<bar>) * (1 / 2 ^ 52) / 2 \<le> \<bar>x\<bar> * (1 / 2 ^ 52) / 2"
    using binade_lower [OF pos] by (intro divide_right_mono mult_right_mono) simp_all
  finally show ?thesis by simp
qed

text \<open>
  The result of the rounding is a multiple of the spacing, with a significand of at
  most 53 bits; the rounding is monotone, and it leaves every such multiple as it is.
\<close>

lemma fl64_ulp: "x \<noteq> 0 \<Longrightarrow> fl64 x = of_int (round_half_even (x / pow2 (ulp_exp x))) * pow2 (ulp_exp x)"
  by (simp add: fl64_def ulp_exp_def Let_def)

lemma fl64_0: "fl64 0 = 0"
  by (simp add: fl64_def)

lemma fl64_minus: "fl64 (- x) = - fl64 x"
  by (simp add: fl64_def Let_def round_half_even_minus)

lemma ulp_exp_lower: "- 1074 \<le> ulp_exp x"
  by (simp add: ulp_exp_def)

lemma ulp_exp_mono:
  assumes "0 < x" "x \<le> y"
  shows "ulp_exp x \<le> ulp_exp y"
  using binade_mono [of x y] assms by (simp add: ulp_exp_def)

lemma scaled_below:
  assumes "0 < x"
  shows "x / pow2 (ulp_exp x) < 2 ^ 53"
proof -
  have "binade x + 1 \<le> ulp_exp x + 53" using assms by (simp add: ulp_exp_def)
  then have "pow2 (binade x + 1) \<le> pow2 (ulp_exp x + 53)" by (rule pow2_mono)
  also have "\<dots> = pow2 (ulp_exp x) * 2 ^ 53"
    using pow2_add [of "ulp_exp x" 53] pow2_nat [of 53] by simp
  finally have "x < pow2 (ulp_exp x) * 2 ^ 53" using binade_upper [OF assms] by linarith
  then show ?thesis using pow2_pos [of "ulp_exp x"] by (simp add: pos_divide_less_eq mult.commute)
qed

lemma scaled_above:
  assumes "pow2 (- 1022) \<le> x"
  shows "2 ^ 52 \<le> x / pow2 (ulp_exp x)"
proof -
  have pos: "0 < x" using assms pow2_pos [of "- 1022"] by linarith
  have "\<not> binade x < - 1022"
  proof
    assume "binade x < - 1022"
    then have "pow2 (binade x + 1) \<le> pow2 (- 1022)" by (intro pow2_mono) simp
    with binade_upper [OF pos] assms show False by linarith
  qed
  then have "binade x = ulp_exp x + 52" using pos by (simp add: ulp_exp_def)
  then have "pow2 (binade x) = pow2 (ulp_exp x) * 2 ^ 52"
    using pow2_add [of "ulp_exp x" 52] pow2_nat [of 52] by simp
  then have "pow2 (ulp_exp x) * 2 ^ 52 \<le> x" using binade_lower [OF pos] by simp
  then show ?thesis using pow2_pos [of "ulp_exp x"] by (simp add: pos_le_divide_eq mult.commute)
qed

lemma significand_range:
  assumes "0 < x"
  shows "0 \<le> round_half_even (x / pow2 (ulp_exp x)) \<and> round_half_even (x / pow2 (ulp_exp x)) \<le> 2 ^ 53"
proof -
  let ?y = "x / pow2 (ulp_exp x)"
  have "0 \<le> ?y" using assms pow2_pos [of "ulp_exp x"] by simp
  then have "round_half_even (of_int 0) \<le> round_half_even ?y"
    by (intro round_half_even_mono) simp
  then have lo: "0 \<le> round_half_even ?y" by (simp only: round_half_even_of_int)
  have "?y \<le> of_int (2 ^ 53)" using scaled_below [OF assms] by simp
  then have "round_half_even ?y \<le> round_half_even (of_int (2 ^ 53))"
    by (rule round_half_even_mono)
  then have "round_half_even ?y \<le> 2 ^ 53" by (simp only: round_half_even_of_int)
  with lo show ?thesis by simp
qed

lemma fl64_nonneg: "0 \<le> x \<Longrightarrow> 0 \<le> fl64 x"
proof (cases "x = 0")
  case True
  then show ?thesis by (simp add: fl64_0)
next
  case False
  assume "0 \<le> x"
  with False have pos: "0 < x" by simp
  then show ?thesis
    using significand_range [OF pos] pow2_pos [of "ulp_exp x"] by (simp add: fl64_ulp)
qed

lemma fl64_upper:
  assumes "0 < x"
  shows "fl64 x \<le> pow2 (ulp_exp x + 53)"
proof -
  have "of_int (round_half_even (x / pow2 (ulp_exp x))) \<le> (2 ^ 53 :: real)"
    using significand_range [OF assms] by (metis of_int_le_iff of_int_numeral of_int_power)
  then have "fl64 x \<le> 2 ^ 53 * pow2 (ulp_exp x)"
    using assms pow2_pos [of "ulp_exp x"] by (simp add: fl64_ulp)
  then show ?thesis using pow2_add [of "ulp_exp x" 53] pow2_nat [of 53] by (simp add: mult.commute)
qed

lemma fl64_lower:
  assumes "pow2 (- 1022) \<le> x"
  shows "pow2 (ulp_exp x + 52) \<le> fl64 x"
proof -
  have pos: "0 < x" using assms pow2_pos [of "- 1022"] by linarith
  have "of_int (2 ^ 52) \<le> x / pow2 (ulp_exp x)" using scaled_above [OF assms] by simp
  then have "round_half_even (of_int (2 ^ 52)) \<le> round_half_even (x / pow2 (ulp_exp x))"
    by (rule round_half_even_mono)
  then have "2 ^ 52 \<le> round_half_even (x / pow2 (ulp_exp x))"
    by (simp only: round_half_even_of_int)
  then have "(2 ^ 52 :: real) \<le> of_int (round_half_even (x / pow2 (ulp_exp x)))"
    by (metis of_int_le_iff of_int_numeral of_int_power)
  then have "2 ^ 52 * pow2 (ulp_exp x) \<le> fl64 x"
    using pos pow2_pos [of "ulp_exp x"] by (simp add: fl64_ulp)
  then show ?thesis using pow2_add [of "ulp_exp x" 52] pow2_nat [of 52] by (simp add: mult.commute)
qed

lemma fl64_mono:
  assumes "0 \<le> x" "x \<le> y"
  shows "fl64 x \<le> fl64 y"
proof (cases "x = 0")
  case True
  then show ?thesis using assms fl64_nonneg [of y] by (simp add: fl64_0)
next
  case False
  with assms have x: "0 < x" and y: "0 < y" by simp_all
  have le: "ulp_exp x \<le> ulp_exp y" using x assms(2) by (rule ulp_exp_mono)
  show ?thesis
  proof (cases "ulp_exp x = ulp_exp y")
    case True
    have "x / pow2 (ulp_exp y) \<le> y / pow2 (ulp_exp y)"
      using assms(2) pow2_pos [of "ulp_exp y"] by (simp add: divide_right_mono)
    then have "round_half_even (x / pow2 (ulp_exp y)) \<le> round_half_even (y / pow2 (ulp_exp y))"
      by (rule round_half_even_mono)
    then have "of_int (round_half_even (x / pow2 (ulp_exp y))) * pow2 (ulp_exp y)
        \<le> of_int (round_half_even (y / pow2 (ulp_exp y))) * pow2 (ulp_exp y)"
      using pow2_pos [of "ulp_exp y"] by (intro mult_right_mono) simp_all
    then show ?thesis using x y True by (simp add: fl64_ulp)
  next
    case False
    with le have lt: "ulp_exp x + 53 \<le> ulp_exp y + 52" by simp
    have "- 1022 < binade y" using lt ulp_exp_lower [of x] y by (simp add: ulp_exp_def)
    then have "pow2 (- 1022) \<le> pow2 (binade y)" by (intro pow2_mono) simp
    then have "pow2 (- 1022) \<le> y" using binade_lower [OF y] by linarith
    then have "pow2 (ulp_exp y + 52) \<le> fl64 y" by (rule fl64_lower)
    moreover have "fl64 x \<le> pow2 (ulp_exp x + 53)" using x by (rule fl64_upper)
    moreover have "pow2 (ulp_exp x + 53) \<le> pow2 (ulp_exp y + 52)" using lt by (rule pow2_mono)
    ultimately show ?thesis by linarith
  qed
qed

lemma fl64_multiple:
  assumes "x = of_int n * pow2 k" and "0 \<le> n" and "n \<le> 2 ^ 53" and "- 1074 \<le> k"
  shows "fl64 x = x"
proof (cases "n = 0")
  case True
  then show ?thesis using assms(1) by (simp add: fl64_0)
next
  case False
  with assms(2) have n: "0 < n" by simp
  then have x: "0 < x" using assms(1) pow2_pos [of k] by simp
  define u where "u = ulp_exp x"
  have upos: "0 < pow2 u" by (rule pow2_pos)
  have "\<exists>m :: int. x / pow2 u = of_int m"
  proof (cases "u \<le> k")
    case True
    then obtain j where j: "k = u + int j" using zle_iff_zadd by blast
    have "pow2 k = pow2 u * pow2 (int j)" unfolding j by (rule pow2_add)
    then have "x / pow2 u = of_int n * pow2 (int j)"
      using upos by (simp add: assms(1))
    also have "\<dots> = of_int (n * 2 ^ j)" by (simp add: pow2_nat)
    finally show ?thesis by blast
  next
    case False
    then have ku: "k + 1 \<le> u" by simp
    have "u \<noteq> - 1074" using ku assms(4) by linarith
    then have b: "binade x = u + 52"
      using x unfolding u_def by (simp add: ulp_exp_def max_def split: if_splits)
    have low: "pow2 (u + 52) \<le> x" using binade_lower [OF x] by (simp add: b)
    have k53: "2 ^ 53 * pow2 k = pow2 (k + 53)"
      using pow2_add [of k 53] pow2_nat [of 53] by (simp add: mult.commute)
    have "(of_int n :: real) \<le> of_int (2 ^ 53)" using assms(3) by (simp only: of_int_le_iff)
    then have "of_int n * pow2 k \<le> 2 ^ 53 * pow2 k"
      using pow2_pos [of k] by (intro mult_right_mono) simp_all
    then have "x \<le> pow2 (k + 53)" by (simp only: assms(1) k53)
    with low have "pow2 (u + 52) \<le> pow2 (k + 53)" by linarith
    then have "u + 52 \<le> k + 53" by (rule pow2_le_cancel)
    with ku have uk: "u = k + 1" by linarith
    have "u + 52 = k + 53" using uk by simp
    with low have "pow2 (k + 53) \<le> x" by simp
    then have "2 ^ 53 * pow2 k \<le> of_int n * pow2 k" by (simp only: assms(1) k53)
    then have "(2 ^ 53 :: real) \<le> of_int n" using pow2_pos [of k] by simp
    then have "(of_int (2 ^ 53) :: real) \<le> of_int n" by simp
    then have "2 ^ 53 \<le> n" by (simp only: of_int_le_iff)
    with assms(3) have n53: "n = 2 ^ 53" by simp
    have "pow2 u = 2 * pow2 k"
      using pow2_add [of k 1] pow2_nat [of 1] by (simp add: uk mult.commute)
    moreover have "x = 2 ^ 53 * pow2 k" by (simp add: assms(1) n53)
    ultimately have "x / pow2 u = of_int (2 ^ 52)"
      using pow2_pos [of k] by simp
    then show ?thesis by blast
  qed
  then obtain m :: int where m: "x / pow2 u = of_int m" by blast
  then have xm: "x = of_int m * pow2 u" using upos by (simp add: field_simps)
  have "fl64 x = of_int (round_half_even (x / pow2 u)) * pow2 u"
    using x unfolding u_def by (simp add: fl64_ulp)
  then have "fl64 x = of_int m * pow2 u" by (simp only: m round_half_even_of_int)
  with xm show ?thesis by simp
qed

lemma fl64_dyadic:
  assumes "\<bar>n\<bar> \<le> 2 ^ 53"
  shows "fl64 (of_int n * 2 ^ k) = of_int n * 2 ^ k"
proof (cases "0 \<le> n")
  case True
  show ?thesis
  proof (rule fl64_multiple)
    show "of_int n * 2 ^ k = of_int n * pow2 (int k)" by (simp add: pow2_nat)
    show "0 \<le> n" by (rule True)
    show "n \<le> 2 ^ 53" using assms by simp
    show "- 1074 \<le> int k" by simp
  qed
next
  case False
  have "fl64 (of_int (- n) * 2 ^ k) = of_int (- n) * 2 ^ k"
  proof (rule fl64_multiple)
    show "of_int (- n) * 2 ^ k = of_int (- n) * pow2 (int k)" by (simp add: pow2_nat)
    show "0 \<le> - n" using False by simp
    show "- n \<le> 2 ^ 53" using assms by simp
    show "- 1074 \<le> int k" by simp
  qed
  then have "fl64 (- (of_int n * 2 ^ k)) = - (of_int n * 2 ^ k)" by simp
  then show ?thesis by (simp add: fl64_minus)
qed

lemma is_double_fl64:
  assumes "0 \<le> x"
  shows "is_double (fl64 x)"
proof (cases "x = 0")
  case True
  then show ?thesis by (simp add: is_double_def fl64_0)
next
  case False
  with assms have x: "0 < x" by simp
  have "fl64 (fl64 x) = fl64 x"
  proof (rule fl64_multiple)
    show "fl64 x = of_int (round_half_even (x / pow2 (ulp_exp x))) * pow2 (ulp_exp x)"
      using x by (simp add: fl64_ulp)
    show "0 \<le> round_half_even (x / pow2 (ulp_exp x))"
      "round_half_even (x / pow2 (ulp_exp x)) \<le> 2 ^ 53"
      using significand_range [OF x] by simp_all
    show "- 1074 \<le> ulp_exp x" by (rule ulp_exp_lower)
  qed
  then show ?thesis by (simp add: is_double_def)
qed

lemma is_double_multiple:
  assumes "is_double x" and "0 < x"
  shows "\<exists>n. x = of_int n * pow2 (ulp_exp x) \<and> 0 \<le> n \<and> n \<le> 2 ^ 53"
proof -
  have "x = of_int (round_half_even (x / pow2 (ulp_exp x))) * pow2 (ulp_exp x)"
    using assms by (simp add: is_double_def fl64_ulp)
  then show ?thesis using significand_range [OF assms(2)] by blast
qed

text \<open>
  The difference of two doubles that are within a factor of two of each other is a
  double (Sterbenz).
\<close>

lemma is_double_diff:
  assumes "is_double t" and "is_double H" and "0 < t" and "t \<le> H" and "H \<le> 2 * t"
  shows "is_double (H - t)"
proof -
  define u where "u = ulp_exp t"
  define v where "v = ulp_exp H"
  have H: "0 < H" using assms(3,4) by linarith
  obtain a where a: "t = of_int a * pow2 u" "0 \<le> a" "a \<le> 2 ^ 53"
    using is_double_multiple [OF assms(1,3)] unfolding u_def by blast
  obtain b where b: "H = of_int b * pow2 v"
    using is_double_multiple [OF assms(2) H] unfolding v_def by blast
  have "u \<le> v" unfolding u_def v_def using assms(3,4) by (rule ulp_exp_mono)
  then obtain j where j: "v = u + int j" using zle_iff_zadd by blast
  have "pow2 v = pow2 u * 2 ^ j" unfolding j by (simp add: pow2_add pow2_nat)
  then have Hu: "H = of_int (b * 2 ^ j) * pow2 u" by (simp add: b)
  define c where "c = b * 2 ^ j - a"
  have d: "H - t = of_int c * pow2 u"
    unfolding c_def by (simp add: Hu a(1) algebra_simps)
  have upos: "0 < pow2 u" by (rule pow2_pos)
  have "0 \<le> of_int c * pow2 u" using assms(4) d by simp
  then have "(0 :: real) \<le> of_int c" using upos by (simp add: zero_le_mult_iff)
  then have c0: "0 \<le> c" by simp
  have "of_int c * pow2 u \<le> of_int a * pow2 u" using assms(5) d a(1) by linarith
  then have "(of_int c :: real) \<le> of_int a" using upos by simp
  then have "c \<le> a" by simp
  with a(3) have c53: "c \<le> 2 ^ 53" by linarith
  have "- 1074 \<le> u" unfolding u_def by (rule ulp_exp_lower)
  with d c0 c53 have "fl64 (H - t) = H - t" by (rule fl64_multiple)
  then show ?thesis by (simp add: is_double_def)
qed

text \<open>A number of at most \<open>2^-1075\<close>, half the smallest positive double, rounds to 0.\<close>

lemma fl64_tiny:
  assumes "0 \<le> x" and "x \<le> pow2 (- 1075)"
  shows "fl64 x = 0"
proof (cases "x = 0")
  case True
  then show ?thesis by (simp add: fl64_0)
next
  case False
  with assms(1) have x: "0 < x" by simp
  have "pow2 (binade x) \<le> x" using x by (rule binade_lower)
  with assms(2) have "pow2 (binade x) \<le> pow2 (- 1075)" by linarith
  then have "binade x \<le> - 1075" by (rule pow2_le_cancel)
  then have u: "ulp_exp x = - 1074" using x by (simp add: ulp_exp_def max_def)
  have q: "pow2 (- 1074) = 2 * pow2 (- 1075)"
    using pow2_add [of "- 1075" 1] pow2_nat [of 1] by simp
  define y where "y = x / pow2 (- 1074)"
  have y0: "0 < y" unfolding y_def using x pow2_pos [of "- 1074"] by simp
  have "x * 2 \<le> pow2 (- 1074)" using assms(2) q by linarith
  then have y1: "y \<le> 1 / 2" unfolding y_def using pow2_pos [of "- 1074"]
    by (simp add: field_simps)
  have fl: "\<lfloor>y\<rfloor> = 0" using y0 y1 by (intro floor_unique) simp_all
  have "round_half_even y = 0"
    unfolding round_half_even_def Let_def fl using y1 by auto
  then show ?thesis using fl64_ulp [of x] False by (simp add: u y_def)
qed

section \<open>The normalizer\<close>

lemma guard_positive_pos: "0 < d \<Longrightarrow> 0 < guard_positive v d"
  by (cases v) (simp_all add: guard_positive_def)

lemma guard_nonneg_nonneg: "0 \<le> d \<Longrightarrow> 0 \<le> guard_nonneg v d"
  by (cases v) (simp_all add: guard_nonneg_def)

lemma normalized_guardrails: "normalized (guardrails raw)"
  by (simp add: normalized_def guardrails_def guard_positive_pos guard_nonneg_nonneg)

lemma params_of_readParams:
  "params_of (readParams raw) =
     (if t_end_min (guardrails raw) / dt_min (guardrails raw) > MAX_STEPS
      then (guardrails raw)\<lparr>dt_min := t_end_min (guardrails raw) / MAX_STEPS\<rparr>
      else guardrails raw)"
  by (simp add: readParams_def Let_def)

lemma normalized_readParams: "normalized (params_of (readParams raw))"
  using normalized_guardrails [of raw]
  by (simp add: params_of_readParams normalized_def MAX_STEPS_def)

text \<open>
  Claim C1. Whatever the six raw fields are (a number, an infinity, \<^verbatim>\<open>NaN\<close> or
  \<^verbatim>\<open>undefined\<close>), \<^verbatim>\<open>readParams\<close> returns a parameter set with a positive
  weight, horizon and step and a non-negative bolus, infusion rate and infusion
  duration. A field that is finite and in range is kept, any other field gets its
  default: 70, 0, 0, 0, 240, and 0.2 for the step before the cap on the number of steps.
  The function has no error result.
\<close>

theorem readParams_satisfies_constraints:
  "normalized (params_of (readParams raw)) \<and>
   weight (params_of (readParams raw)) =
     (case weight raw of Fin x \<Rightarrow> if 0 < x then x else 70 | _ \<Rightarrow> 70) \<and>
   bolus_mg (params_of (readParams raw)) =
     (case bolus_mg raw of Fin x \<Rightarrow> if 0 \<le> x then x else 0 | _ \<Rightarrow> 0) \<and>
   infusion_mg_min (params_of (readParams raw)) =
     (case infusion_mg_min raw of Fin x \<Rightarrow> if 0 \<le> x then x else 0 | _ \<Rightarrow> 0) \<and>
   infusion_duration_min (params_of (readParams raw)) =
     (case infusion_duration_min raw of Fin x \<Rightarrow> if 0 \<le> x then x else 0 | _ \<Rightarrow> 0) \<and>
   t_end_min (params_of (readParams raw)) =
     (case t_end_min raw of Fin x \<Rightarrow> if 0 < x then x else 240 | _ \<Rightarrow> 240) \<and>
   dt_min (guardrails raw) =
     (case dt_min raw of Fin x \<Rightarrow> if 0 < x then x else 2 / 10 | _ \<Rightarrow> 2 / 10)"
proof -
  let ?p = "params_of (readParams raw)"
  have "weight ?p = weight (guardrails raw)"
    by (simp add: params_of_readParams)
  then have w: "weight ?p = (case weight raw of Fin x \<Rightarrow> if 0 < x then x else 70 | _ \<Rightarrow> 70)"
    by (simp add: guardrails_def guard_positive_def split: jsval.splits)
  have "bolus_mg ?p = bolus_mg (guardrails raw)"
    by (simp add: params_of_readParams)
  then have b: "bolus_mg ?p = (case bolus_mg raw of Fin x \<Rightarrow> if 0 \<le> x then x else 0 | _ \<Rightarrow> 0)"
    by (simp add: guardrails_def guard_nonneg_def split: jsval.splits)
  have "infusion_mg_min ?p = infusion_mg_min (guardrails raw)"
    by (simp add: params_of_readParams)
  then have r: "infusion_mg_min ?p =
      (case infusion_mg_min raw of Fin x \<Rightarrow> if 0 \<le> x then x else 0 | _ \<Rightarrow> 0)"
    by (simp add: guardrails_def guard_nonneg_def split: jsval.splits)
  have "infusion_duration_min ?p = infusion_duration_min (guardrails raw)"
    by (simp add: params_of_readParams)
  then have d: "infusion_duration_min ?p =
      (case infusion_duration_min raw of Fin x \<Rightarrow> if 0 \<le> x then x else 0 | _ \<Rightarrow> 0)"
    by (simp add: guardrails_def guard_nonneg_def split: jsval.splits)
  have "t_end_min ?p = t_end_min (guardrails raw)"
    by (simp add: params_of_readParams)
  then have e: "t_end_min ?p = (case t_end_min raw of Fin x \<Rightarrow> if 0 < x then x else 240 | _ \<Rightarrow> 240)"
    by (simp add: guardrails_def guard_positive_def split: jsval.splits)
  have s: "dt_min (guardrails raw) =
      (case dt_min raw of Fin x \<Rightarrow> if 0 < x then x else 2 / 10 | _ \<Rightarrow> 2 / 10)"
    by (simp add: guardrails_def guard_positive_def split: jsval.splits)
  from normalized_readParams [of raw] w b r d e s show ?thesis
    by blast
qed

theorem readParams_satisfies_constraints_witness:
  "params_of (readParams \<lparr> weight = NaN, bolus_mg = Fin (- 5), infusion_mg_min = PInf,
      infusion_duration_min = Undefined, t_end_min = Fin 0, dt_min = NInf \<rparr>) =
   \<lparr> weight = 70, bolus_mg = 0, infusion_mg_min = 0, infusion_duration_min = 0,
     t_end_min = 240, dt_min = 2 / 10 \<rparr> \<and>
   normalized (params_of (readParams \<lparr> weight = NaN, bolus_mg = Fin (- 5), infusion_mg_min = PInf,
      infusion_duration_min = Undefined, t_end_min = Fin 0, dt_min = NInf \<rparr>))"
  using readParams_satisfies_constraints [of "\<lparr> weight = NaN, bolus_mg = Fin (- 5),
      infusion_mg_min = PInf, infusion_duration_min = Undefined, t_end_min = Fin 0, dt_min = NInf \<rparr>"]
  by (simp add: params_of_readParams guardrails_def guard_positive_def guard_nonneg_def MAX_STEPS_def)

text \<open>The step that \<^verbatim>\<open>readParams\<close> returns is \<open>cap_step\<close> without rounding.\<close>

lemma dt_min_exact:
  "dt_min (params_of (readParams raw)) =
     cap_step (\<lambda>x. x) (t_end_min (guardrails raw)) (dt_min (guardrails raw))"
  by (simp add: params_of_readParams cap_step_def)

section \<open>The infusion term\<close>

text \<open>
  Claim C6. For a normalized parameter set and \<open>t \<ge> 0\<close>, \<open>doseRate t p\<close> is the
  infusion rate when the rate and the duration are positive and \<open>t\<close> is at most the
  duration (the boundary included), and 0 in every other case.
\<close>

theorem doseRate_window:
  assumes "normalized p" and "0 \<le> t"
  shows "(0 < infusion_mg_min p \<and> 0 < infusion_duration_min p \<and> t \<le> infusion_duration_min p
            \<longrightarrow> doseRate t p = infusion_mg_min p) \<and>
         (infusion_mg_min p \<le> 0 \<or> infusion_duration_min p \<le> 0 \<or> infusion_duration_min p < t
            \<longrightarrow> doseRate t p = 0)"
  by (auto simp: doseRate_def)

theorem doseRate_window_witness:
  "normalized p_infusion \<and> doseRate 0 p_infusion = 10 \<and> doseRate 30 p_infusion = 10 \<and>
   doseRate 31 p_infusion = 0"
proof -
  have n: "normalized p_infusion" by (simp add: normalized_def p_infusion_def)
  from doseRate_window [OF n, of 0] doseRate_window [OF n, of 30] doseRate_window [OF n, of 31] n
  show ?thesis by (simp add: p_infusion_def)
qed

section \<open>The integrator\<close>

subsection \<open>One pass of the loop\<close>

lemma cur_t_rk4_step: "cur_t (rk4_step p s) = cur_t s + min (dt_min p) (t_end_min p - cur_t s)"
  by (simp add: rk4_step_def Let_def split_def)

lemma arr_t_rk4_step: "arr_t (rk4_step p s) = arr_t s @ [cur_t (rk4_step p s)]"
  by (simp add: rk4_step_def Let_def split_def)

lemma arr_A1_rk4_step: "arr_A1 (rk4_step p s) = arr_A1 s @ [cur_A1 (rk4_step p s)]"
  by (simp add: rk4_step_def Let_def split_def)

lemma arr_A2_rk4_step: "arr_A2 (rk4_step p s) = arr_A2 s @ [cur_A2 (rk4_step p s)]"
  by (simp add: rk4_step_def Let_def split_def)

lemma arr_A3_rk4_step: "arr_A3 (rk4_step p s) = arr_A3 s @ [cur_A3 (rk4_step p s)]"
  by (simp add: rk4_step_def Let_def split_def)

subsection \<open>The loop\<close>

text \<open>A property kept by every pass that the loop runs holds when the loop ends.\<close>

lemma rk4_loop_invariant:
  assumes "\<And>u. P u \<Longrightarrow> cur_t u < t_end_min p \<Longrightarrow> P (rk4_step p u)" and "P s"
  shows "P (rk4_loop p nSteps i s)"
  using assms
proof (induction p nSteps i s rule: rk4_loop.induct)
  case (1 p nSteps i s)
  show ?case
  proof (cases "i < nSteps \<and> \<not> cur_t s \<ge> t_end_min p")
    case True
    then have "P (rk4_step p s)" using "1.prems" by simp
    then have "P (rk4_loop p nSteps (i + 1) (rk4_step p s))" using "1.IH" "1.prems"(1) True by simp
    then show ?thesis using True by (subst rk4_loop.simps) simp
  next
    case False
    then show ?thesis using "1.prems"(2) by (subst rk4_loop.simps) auto
  qed
qed

lemma sol_t_solveRK4: "sol_t (solveRK4 p) = arr_t (rk4_loop p \<lceil>t_end_min p / dt_min p\<rceil> 0 (rk4_init p))"
  by (simp add: solveRK4_def Let_def)

lemma solveRK4_sel:
  "sol_A1 (solveRK4 p) = arr_A1 (rk4_loop p \<lceil>t_end_min p / dt_min p\<rceil> 0 (rk4_init p))"
  "sol_A2 (solveRK4 p) = arr_A2 (rk4_loop p \<lceil>t_end_min p / dt_min p\<rceil> 0 (rk4_init p))"
  "sol_A3 (solveRK4 p) = arr_A3 (rk4_loop p \<lceil>t_end_min p / dt_min p\<rceil> 0 (rk4_init p))"
  "sol_C1 (solveRK4 p) = map (\<lambda>a. a / (V1_per_kg * weight p)) (sol_A1 (solveRK4 p))"
  by (simp_all add: solveRK4_def Let_def)

lemma solveRK4_lengths:
  "length (sol_A1 (solveRK4 p)) = length (sol_t (solveRK4 p))"
  "length (sol_A2 (solveRK4 p)) = length (sol_t (solveRK4 p))"
  "length (sol_A3 (solveRK4 p)) = length (sol_t (solveRK4 p))"
  "length (sol_C1 (solveRK4 p)) = length (sol_t (solveRK4 p))"
proof -
  let ?P = "\<lambda>s. length (arr_A1 s) = length (arr_t s) \<and> length (arr_A2 s) = length (arr_t s) \<and>
     length (arr_A3 s) = length (arr_t s)"
  have "?P (rk4_loop p \<lceil>t_end_min p / dt_min p\<rceil> 0 (rk4_init p))"
    by (rule rk4_loop_invariant)
      (simp_all add: arr_t_rk4_step arr_A1_rk4_step arr_A2_rk4_step arr_A3_rk4_step rk4_init_def)
  then show "length (sol_A1 (solveRK4 p)) = length (sol_t (solveRK4 p))"
    "length (sol_A2 (solveRK4 p)) = length (sol_t (solveRK4 p))"
    "length (sol_A3 (solveRK4 p)) = length (sol_t (solveRK4 p))"
    "length (sol_C1 (solveRK4 p)) = length (sol_t (solveRK4 p))"
    by (simp_all add: sol_t_solveRK4 solveRK4_sel)
qed

text \<open>The times of \<^verbatim>\<open>solveRK4\<close> are those of \<open>sol_times\<close> without rounding.\<close>

lemma times_loop_exact:
  "arr_t (rk4_loop p nSteps i s) =
     times_loop (\<lambda>x. x) (t_end_min p) (dt_min p) nSteps i (cur_t s) (arr_t s)"
proof (induction p nSteps i s rule: rk4_loop.induct)
  case (1 p nSteps i s)
  show ?case
  proof (cases "i < nSteps \<and> \<not> cur_t s \<ge> t_end_min p")
    case True
    then have "arr_t (rk4_loop p nSteps (i + 1) (rk4_step p s)) =
        times_loop (\<lambda>x. x) (t_end_min p) (dt_min p) nSteps (i + 1)
          (cur_t (rk4_step p s)) (arr_t (rk4_step p s))"
      using "1.IH" by simp
    then show ?thesis
      using True
      by (subst rk4_loop.simps, subst times_loop.simps)
        (simp add: Let_def arr_t_rk4_step cur_t_rk4_step)
  next
    case False
    then show ?thesis
      by (subst rk4_loop.simps, subst times_loop.simps) auto
  qed
qed

lemma sol_t_exact: "sol_t (solveRK4 p) = sol_times (\<lambda>x. x) p"
  by (simp add: sol_t_solveRK4 times_loop_exact sol_times_def step_count_def rk4_init_def)

lemma doseRate_weight: "doseRate t (p\<lparr>weight := w\<rparr>) = doseRate t p"
  by (simp add: doseRate_def)

lemma deriv_weight: "deriv t a1 a2 a3 (p\<lparr>weight := w\<rparr>) = deriv t a1 a2 a3 p"
  by (simp add: deriv_def doseRate_weight)

lemma rk4_update_weight: "rk4_update (p\<lparr>weight := w\<rparr>) t h a1 a2 a3 = rk4_update p t h a1 a2 a3"
  by (simp add: rk4_update_def deriv_weight)

lemma rk4_step_weight: "rk4_step (p\<lparr>weight := w\<rparr>) s = rk4_step p s"
  by (simp add: rk4_step_def rk4_update_weight)

lemma rk4_loop_weight: "rk4_loop (p\<lparr>weight := w\<rparr>) nSteps i s = rk4_loop p nSteps i s"
proof (induction p nSteps i s rule: rk4_loop.induct)
  case (1 p nSteps i s)
  show ?case
  proof (cases "i < nSteps \<and> \<not> cur_t s \<ge> t_end_min p")
    case True
    then have "rk4_loop (p\<lparr>weight := w\<rparr>) nSteps (i + 1) (rk4_step p s) =
        rk4_loop p nSteps (i + 1) (rk4_step p s)"
      using "1.IH" by simp
    then show ?thesis
      using True
      by (subst rk4_loop.simps, subst (2) rk4_loop.simps) (simp add: rk4_step_weight)
  next
    case False
    then show ?thesis
      by (subst rk4_loop.simps, subst (2) rk4_loop.simps) auto
  qed
qed

lemma rk4_init_weight:
  "rk4_init (p\<lparr>weight := w\<rparr>) = rk4_init p"
  by (simp add: rk4_init_def)

text \<open>
  Claim C10. Two parameter sets that differ in the weight only give the same times
  and the same three mass sequences; the weight enters the concentration alone, which
  is the mass of the central compartment divided by \<open>V1_per_kg * weight\<close>.
\<close>

theorem weight_enters_only_C1:
  "sol_t (solveRK4 (p\<lparr>weight := w\<rparr>)) = sol_t (solveRK4 p) \<and>
   sol_A1 (solveRK4 (p\<lparr>weight := w\<rparr>)) = sol_A1 (solveRK4 p) \<and>
   sol_A2 (solveRK4 (p\<lparr>weight := w\<rparr>)) = sol_A2 (solveRK4 p) \<and>
   sol_A3 (solveRK4 (p\<lparr>weight := w\<rparr>)) = sol_A3 (solveRK4 p) \<and>
   sol_C1 (solveRK4 (p\<lparr>weight := w\<rparr>)) = map (\<lambda>a. a / (V1_per_kg * w)) (sol_A1 (solveRK4 p))"
  by (simp add: sol_t_solveRK4 solveRK4_sel rk4_loop_weight rk4_init_weight)

section \<open>The metrics\<close>


lemma metrics_after_0: "metrics_after sol 0 = metrics_init"
  by (simp add: metrics_after_def)

lemma metrics_after_Suc: "metrics_after sol (Suc k) = metrics_body sol k (metrics_after sol k)"
  by (simp add: metrics_after_def)



lemma auc_metrics_body:
  "auc (metrics_body sol i m) =
     (if i > 0
      then js_add (auc m) (js_mul (Fin (0.5 * (sol_C1 sol ! i + sol_C1 sol ! (i - 1))))
             (js_sub (js_index (sol_t sol) i) (js_index (sol_t sol) (i - 1))))
      else auc m)"
  by (simp add: metrics_body_def Let_def)




text \<open>
  On a trace whose times are as many as its concentrations, \<open>auc\<close> is the sum of the
  trapezoids between consecutive points.
\<close>

lemma auc_after:
  assumes "k \<le> length (sol_t sol)"
  shows "auc (metrics_after sol k) =
     Fin (\<Sum>i = 1 ..< k. 0.5 * (sol_C1 sol ! i + sol_C1 sol ! (i - 1)) * (sol_t sol ! i - sol_t sol ! (i - 1)))"
  using assms
proof (induction k)
  case 0
  then show ?case by (simp add: metrics_after_0 metrics_init_def)
next
  case (Suc k)
  then have IH: "auc (metrics_after sol k) =
     Fin (\<Sum>i = 1 ..< k. 0.5 * (sol_C1 sol ! i + sol_C1 sol ! (i - 1)) * (sol_t sol ! i - sol_t sol ! (i - 1)))"
    by simp
  show ?case
  proof (cases "k = 0")
    case True
    then show ?thesis
      by (simp add: metrics_after_Suc metrics_after_0 metrics_init_def auc_metrics_body)
  next
    case False
    then have "{1 ..< Suc k} = insert k {1 ..< k}" by auto
    then show ?thesis
      using False Suc.prems IH
      by (simp add: metrics_after_Suc auc_metrics_body js_index_def js_sub_def)
  qed
qed




section \<open>The program on doubles\<close>

subsection \<open>Constants and single operations\<close>

lemmas dbl_eval = dbl_def d_sub_def math_max_def math_min_def is_nan_def js_le_def inf_times_def
  k10_dbl_def k12_dbl_def k21_dbl_def k13_dbl_def k31_dbl_def V1_per_kg_dbl_def

lemma consts_dbl:
  "k10_dbl = Fin (535928355657089 / 4503599627370496)"
  "k12_dbl = Fin (8070450532247929 / 72057594037927936)"
  "k21_dbl = Fin (7926335344172073 / 144115188075855872)"
  "k13_dbl = Fin (6052837899185947 / 144115188075855872)"
  "k31_dbl = Fin (3804640965202595 / 1152921504606846976)"
  "V1_per_kg_dbl = Fin (8214565720323785 / 36028797018963968)"
  by (simp_all add: dbl_eval fl64_eval)

lemma small_dbl:
  "fl64 64 = 64" "fl64 128 = 128" "fl64 (64 / 3) = 6004799503160661 / 281474976710656"
  "fl64 (16645304222761353 / 72057594037927936) = 2080663027845169 / 9007199254740992"
  "fl64 (39343446344708651 / 144115188075855872) = 4917930793088581 / 18014398509481984"
  by (simp_all add: fl64_eval)

lemma unit_dbl:
  "fl64 1 = 1" "fl64 (1 / 2) = 1 / 2" "fl64 (1 / 6) = 6004799503160661 / 36028797018963968"
  by (simp_all add: fl64_eval)

text \<open>
  Below a double \<open>H\<close> that is finite, the result of an operation is its rounding; and
  the comparison of a result with a finite number is that of its rounding.
\<close>

lemma dbl_Fin:
  assumes "0 \<le> x" and "x \<le> H" and "is_double H" and "H < 2 ^ 1024"
  shows "dbl x = Fin (fl64 x)"
proof -
  have "0 \<le> fl64 x" using assms(1) by (rule fl64_nonneg)
  moreover have "fl64 x \<le> fl64 H" using assms(1,2) by (rule fl64_mono)
  then have "fl64 x < 2 ^ 1024" using assms(3,4) by (simp add: is_double_def)
  ultimately show ?thesis by (simp add: dbl_def)
qed

lemma js_gt_dbl:
  assumes "0 \<le> x" and "M < 2 ^ 1024"
  shows "js_gt (dbl x) (Fin M) = (fl64 x > M)"
proof -
  define B :: real where "B = 2 ^ 1024"
  have B: "0 < B" "M < B" using assms(2) by (simp_all add: B_def)
  have y: "0 \<le> fl64 x" using assms(1) by (rule fl64_nonneg)
  have "dbl x = (if B \<le> fl64 x then PInf else Fin (fl64 x))"
    unfolding dbl_def Let_def B_def [symmetric] using y B(1) by simp
  then show ?thesis using B(2) by simp
qed

subsection \<open>The cap on the number of steps\<close>

text \<open>
  The step that \<^verbatim>\<open>readParams\<close> returns is \<open>cap_step\<close> on doubles. The step
  \<open>H / 20000\<close> set by the cap needs 20000 or 20001 steps (for a horizon with
  \<open>H / 20000\<close> above the subnormal range).
\<close>

lemmas readParams_dbl_eval = readParams_dbl_def typed_def guardrails_dbl_def guard_positive_def
  guard_nonneg_def display_of_def MAX_STEPS_def toFixed_num_def

lemma guardrails_dbl_pos:
  "0 < t_end_min (guardrails_dbl raw)" "0 < dt_min (guardrails_dbl raw)"
proof -
  have "(0 :: real) < fl64 (2 / 10)" by (simp add: fl64_eval)
  then show "0 < t_end_min (guardrails_dbl raw)" "0 < dt_min (guardrails_dbl raw)"
    by (simp_all add: guardrails_dbl_def guard_positive_pos)
qed

lemma readParams_dbl_cap_step:
  "dt_min (params_of (readParams_dbl raw)) =
     cap_step fl64 (t_end_min (guardrails_dbl raw)) (dt_min (guardrails_dbl raw))"
proof -
  let ?H = "t_end_min (guardrails_dbl raw)"
  let ?dt = "dt_min (guardrails_dbl raw)"
  have "js_gt (dbl (?H / ?dt)) (Fin MAX_STEPS) = (fl64 (?H / ?dt) > MAX_STEPS)"
    using guardrails_dbl_pos [of raw] by (intro js_gt_dbl) (simp_all add: MAX_STEPS_def)
  then show ?thesis
    using guardrails_dbl_pos(2) [of raw] by (simp add: readParams_dbl_def cap_step_def Let_def)
qed

lemma step_count_after_cap:
  assumes "pow2 (- 1022) \<le> H / 20000"
  shows "step_count fl64 H (fl64 (H / 20000)) \<le> 20001 \<and> 20000 \<le> step_count fl64 H (fl64 (H / 20000))"
proof -
  define x where "x = H / 20000"
  define d where "d = fl64 x"
  define z where "z = H / d"
  have xpos: "0 < x" using assms pow2_pos [of "- 1022"] unfolding x_def by linarith
  have H: "H = 20000 * x" by (simp add: x_def)
  have "\<bar>d - x\<bar> \<le> \<bar>x\<bar> / 2 ^ 53"
    unfolding d_def using assms xpos by (intro fl64_relative_error) (simp add: x_def)
  then have "\<bar>d - x\<bar> \<le> x / 2 ^ 53" using xpos by simp
  then have d: "x - x / 2 ^ 53 \<le> d" "d \<le> x + x / 2 ^ 53" by linarith+
  have dpos: "0 < d" using d(1) xpos by simp
  have "H \<le> (20000 + 1 / 4) * d" using d(1) xpos unfolding H by simp
  then have zu: "z \<le> 20000 + 1 / 4" unfolding z_def using dpos by (simp only: pos_divide_le_eq)
  have "(20000 - 1 / 4) * d \<le> H" using d(2) xpos unfolding H by simp
  then have zl: "20000 - 1 / 4 \<le> z" unfolding z_def using dpos by (simp only: pos_le_divide_eq)
  have b: "binade \<bar>z\<bar> = 14"
  proof (rule binade_eqI)
    show "pow2 14 \<le> \<bar>z\<bar>" using zl by (simp add: pow2_def)
    show "\<bar>z\<bar> < pow2 (14 + 1)" using zu zl by (simp add: pow2_def)
  qed
  have "z \<noteq> 0" using zl by auto
  then have "\<bar>fl64 z - z\<bar> \<le> pow2 (max (binade \<bar>z\<bar>) (- 1022) - 52) / 2"
    by (rule fl64_error)
  also have "pow2 (max (binade \<bar>z\<bar>) (- 1022) - 52) = 1 / 2 ^ 38"
    using pow2_neg_nat [of 38] by (simp add: b)
  finally have "\<bar>fl64 z - z\<bar> \<le> 1 / 4" by simp
  then have "fl64 z \<le> 20001" "19999 < fl64 z" using zu zl by linarith+
  then show ?thesis
    unfolding z_def d_def x_def by (simp add: step_count_def ceiling_le_iff less_ceiling_iff)
qed

lemma cap_step_normal:
  assumes "pow2 (- 1022) \<le> H / 20000"
  shows "step_count fl64 H (cap_step fl64 H dt) \<le> 20001"
proof (cases "fl64 (H / dt) > MAX_STEPS")
  case True
  then show ?thesis
    using step_count_after_cap [OF assms] by (simp add: cap_step_def MAX_STEPS_def)
next
  case False
  then have "fl64 (H / dt) \<le> 20000" by (simp add: MAX_STEPS_def)
  then have "\<lceil>fl64 (H / dt)\<rceil> \<le> 20000" by (simp add: ceiling_le_iff)
  then show ?thesis using False by (simp add: cap_step_def step_count_def)
qed

lemma readParams_dbl_fine:
  "params_of (readParams_dbl (typed 169 (1 / 1000))) =
     \<lparr> weight = 70, bolus_mg = 100, infusion_mg_min = 0, infusion_duration_min = 0,
       t_end_min = 169, dt_min = 608886669620491 / 72057594037927936 \<rparr>"
  "input_dt_min_value (readParams_dbl (typed 169 (1 / 1000))) = Some (84 / 10000)"
  "params_of (readParams_dbl (typed 647 (1 / 1000))) =
     \<lparr> weight = 70, bolus_mg = 100, infusion_mg_min = 0, infusion_duration_min = 0,
       t_end_min = 647, dt_min = 4662126334253937 / 144115188075855872 \<rparr>"
  by (simp_all add: readParams_dbl_eval dbl_eval fl64_eval)

text \<open>
  Claim C2 says that after the cap \<open>\<lceil>horizon / step\<rceil> \<le> 20000\<close>, which is what line 54
  (\<^verbatim>\<open>// Cap max steps to avoid browser freeze\<close>) and \<^verbatim>\<open>MAX_STEPS = 20000\<close>
  announce. The program misses it by a rounding: with 169 typed as the horizon and
  0.001 as the step, the cap sets the step to the double nearest to \<open>169 / 20000\<close>,
  the quotient of 169 by that step rounds to the double just above 20000, and
  \<^verbatim>\<open>Math.ceil\<close> in \<^verbatim>\<open>solveRK4\<close> gives \<^verbatim>\<open>nSteps = 20001\<close>. The same happens
  with a horizon of 647.
\<close>

theorem step_cap_exceeded:
  "dt_min (params_of (readParams_dbl (typed 169 (1 / 1000)))) = fl64 (169 / 20000) \<and>
   nSteps_dbl (params_of (readParams_dbl (typed 169 (1 / 1000)))) = Fin 20001 \<and>
   dt_min (params_of (readParams_dbl (typed 647 (1 / 1000)))) = fl64 (647 / 20000) \<and>
   nSteps_dbl (params_of (readParams_dbl (typed 647 (1 / 1000)))) = Fin 20001 \<and>
   js_gt (Fin 20001) (Fin MAX_STEPS)"
  by (simp add: readParams_dbl_fine nSteps_dbl_def MAX_STEPS_def dbl_eval fl64_eval)

text \<open>
  Claim C8 says that the step written back to the input field is the step that the
  integration uses, which is what line 59 (\<^verbatim>\<open>// reflect adjusted dt in UI\<close>)
  announces. The field receives \<^verbatim>\<open>p.dt_min.toFixed(4)\<close>: with a horizon of 2.5 and a
  typed step of 0.0001 the integration uses the double nearest to 0.000125 and the
  field shows 0.0001; with a horizon of 0.9 and a typed step of 0.000001 the
  integration uses 0.000045 and the field shows 0.0000, so that the next call of
  \<^verbatim>\<open>readParams\<close>, which reads a step of 0 from the field, falls back to 0.2.
\<close>

theorem reported_step_differs:
  "input_dt_min_value (readParams_dbl (typed (5 / 2) (1 / 10000))) = Some (1 / 10000) \<and>
   dt_min (params_of (readParams_dbl (typed (5 / 2) (1 / 10000)))) = fl64 (1 / 8000) \<and>
   fl64 (1 / 8000) \<noteq> 1 / 10000 \<and>
   input_dt_min_value (readParams_dbl (typed (9 / 10) (1 / 1000000))) = Some 0 \<and>
   dt_min (params_of (readParams_dbl (typed (9 / 10) (1 / 1000000)))) = fl64 (fl64 (9 / 10) / 20000) \<and>
   dt_min (params_of (readParams_dbl ((typed (9 / 10) (1 / 1000000))\<lparr>dt_min := Fin 0\<rparr>))) =
     fl64 (2 / 10)"
  by (simp add: readParams_dbl_eval dbl_eval fl64_eval)

subsection \<open>The times of a run\<close>

text \<open>
  On doubles a pass never goes beyond the horizon: either the step \<open>dt\<close> fits, or
  the remainder \<open>H - t\<close> is computed exactly and the pass lands on \<open>H\<close>.
\<close>

lemma times_loop_invariant:
  assumes "\<And>t arr. P t arr \<Longrightarrow> t < H \<Longrightarrow>
             P (rnd (t + min dt (rnd (H - t)))) (arr @ [rnd (t + min dt (rnd (H - t)))])"
    and "P t arr"
  shows "\<exists>t'. P t' (times_loop rnd H dt nSteps i t arr)"
  using assms
proof (induction rnd H dt nSteps i t arr rule: times_loop.induct)
  case (1 rnd H dt nSteps i t arr)
  show ?case
  proof (cases "i < nSteps \<and> \<not> t \<ge> H")
    case True
    let ?t' = "rnd (t + min dt (rnd (H - t)))"
    have "P ?t' (arr @ [?t'])" using "1.prems" True by simp
    then have "\<exists>t'. P t' (times_loop rnd H dt nSteps (i + 1) ?t' (arr @ [?t']))"
      using "1.IH" [of "min dt (rnd (H - t))" ?t'] "1.prems"(1) True by simp
    then show ?thesis using True by (subst times_loop.simps) (simp add: Let_def)
  next
    case False
    then show ?thesis using "1.prems"(2) by (subst times_loop.simps) auto
  qed
qed

lemma fl64_step_bounded:
  assumes "is_double H" and "is_double dt" and "0 < dt"
    and "is_double t" and "0 \<le> t" and "t < H" and "t = 0 \<or> dt \<le> t"
  shows "fl64 (t + min dt (fl64 (H - t))) \<le> H \<and> dt \<le> fl64 (t + min dt (fl64 (H - t)))
         \<or> fl64 (t + min dt (fl64 (H - t))) = H"
proof (cases "dt \<le> H - t")
  case True
  have "fl64 dt \<le> fl64 (H - t)" using assms(3) True by (intro fl64_mono) simp_all
  then have "dt \<le> fl64 (H - t)" using assms(2) by (simp add: is_double_def)
  then have h: "min dt (fl64 (H - t)) = dt" by simp
  have "fl64 (t + dt) \<le> fl64 H" using assms(3,5) True by (intro fl64_mono) simp_all
  then have "fl64 (t + dt) \<le> H" using assms(1) by (simp add: is_double_def)
  moreover have "fl64 dt \<le> fl64 (t + dt)" using assms(3,5) by (intro fl64_mono) simp_all
  then have "dt \<le> fl64 (t + dt)" using assms(2) by (simp add: is_double_def)
  ultimately show ?thesis by (simp add: h)
next
  case False
  have "fl64 (H - t) = H - t"
  proof (cases "t = 0")
    case True
    then show ?thesis using assms(1) by (simp add: is_double_def)
  next
    case False
    with assms(5,7) have "0 < t" "dt \<le> t" by simp_all
    with \<open>\<not> dt \<le> H - t\<close> have "H \<le> 2 * t" by linarith
    with assms(4,1) \<open>0 < t\<close> assms(6) have "is_double (H - t)"
      by (intro is_double_diff) simp_all
    then show ?thesis by (simp add: is_double_def)
  qed
  then have "min dt (fl64 (H - t)) = H - t" using False by simp
  then have "fl64 (t + min dt (fl64 (H - t))) = fl64 H" by simp
  then show ?thesis using assms(1) by (simp add: is_double_def)
qed

lemma time_inv_fl64_step:
  assumes "is_double H" and "is_double dt" and "0 < dt"
    and "time_inv_fl64 H dt t arr" and "t < H"
  shows "time_inv_fl64 H dt (fl64 (t + min dt (fl64 (H - t))))
           (arr @ [fl64 (t + min dt (fl64 (H - t)))])"
proof -
  let ?t' = "fl64 (t + min dt (fl64 (H - t)))"
  from assms(4,5) have t: "is_double t" "0 \<le> t" "t = 0 \<or> dt \<le> t"
    and arr: "\<forall>x \<in> set arr. 0 \<le> x \<and> x \<le> H"
    by (auto simp: time_inv_fl64_def)
  have "0 \<le> fl64 (H - t)" using assms(5) by (intro fl64_nonneg) simp
  then have sum: "0 \<le> t + min dt (fl64 (H - t))" using t(2) assms(3) by simp
  then have d: "is_double ?t'" by (rule is_double_fl64)
  have nn: "0 \<le> ?t'" using sum by (rule fl64_nonneg)
  have b: "?t' \<le> H \<and> dt \<le> ?t' \<or> ?t' = H"
    using assms(1,2,3) t(1,2) assms(5) t(3) by (rule fl64_step_bounded)
  then have le: "?t' \<le> H" by auto
  from b have "?t' = 0 \<or> dt \<le> ?t' \<or> ?t' = H" by auto
  with d nn le arr show ?thesis by (simp add: time_inv_fl64_def)
qed

lemma sol_times_fl64_bounded:
  assumes "is_double (t_end_min p)" and "is_double (dt_min p)"
    and "0 < dt_min p" and "0 < t_end_min p"
  shows "\<forall>x \<in> set (sol_times fl64 p). 0 \<le> x \<and> x \<le> t_end_min p"
proof -
  have "\<exists>t'. time_inv_fl64 (t_end_min p) (dt_min p) t'
      (times_loop fl64 (t_end_min p) (dt_min p) (step_count fl64 (t_end_min p) (dt_min p)) 0 0 [0])"
  proof (rule times_loop_invariant)
    show "time_inv_fl64 (t_end_min p) (dt_min p) 0 [0]"
      using assms(4) by (simp add: time_inv_fl64_def is_double_def fl64_0)
    show "time_inv_fl64 (t_end_min p) (dt_min p)
        (fl64 (t + min (dt_min p) (fl64 (t_end_min p - t))))
        (arr @ [fl64 (t + min (dt_min p) (fl64 (t_end_min p - t)))])"
      if "time_inv_fl64 (t_end_min p) (dt_min p) t arr" and "t < t_end_min p" for t arr
      using assms(1,2,3) that by (rule time_inv_fl64_step)
  qed
  then show ?thesis by (auto simp: sol_times_def time_inv_fl64_def)
qed

lemma sol_times_nonempty: "sol_times rnd p \<noteq> []"
  using times_loop_invariant [where P = "\<lambda>t arr. arr \<noteq> []" and t = 0 and arr = "[0]"
      and rnd = rnd and H = "t_end_min p" and dt = "dt_min p" and i = 0
      and nSteps = "step_count rnd (t_end_min p) (dt_min p)"]
  by (simp add: sol_times_def)

text \<open>
  The times of \<open>solveRK4_dbl\<close> are those of \<open>sol_times\<close> with the rounding \<open>fl64\<close>,
  whatever the masses are, when the horizon and the step are finite doubles and the
  quotient of line 97 does not overflow; the loop then ends.
\<close>

lemma arr_t_rk4_step_dbl:
  "arr_t_dbl (rk4_step_dbl p s) = arr_t_dbl s @ [t_dbl (rk4_step_dbl p s)]"
  by (simp add: rk4_step_dbl_def Let_def split_def)

lemma t_rk4_step_dbl:
  "t_dbl (rk4_step_dbl p s) =
     d_add (t_dbl s) (math_min (Fin (dt_min p)) (d_sub (Fin (t_end_min p)) (t_dbl s)))"
  by (simp add: rk4_step_dbl_def Let_def split_def)

lemma t_rk4_step_dbl_Fin:
  assumes "is_double H" and "is_double dt" and "0 < dt" and "H < 2 ^ 1024"
    and "time_inv_fl64 H dt t arr" and "t < H"
    and "t_end_min p = H" and "dt_min p = dt" and "t_dbl s = Fin t"
  shows "t_dbl (rk4_step_dbl p s) = Fin (fl64 (t + min dt (fl64 (H - t))))"
proof -
  let ?r = "fl64 (H - t)"
  let ?t' = "fl64 (t + min dt ?r)"
  from assms(5) have t: "0 \<le> t" by (simp add: time_inv_fl64_def)
  have "dbl (H - t) = Fin ?r" using assms(6) t assms(1,4) by (intro dbl_Fin) simp_all
  then have sub: "d_sub (Fin H) (Fin t) = Fin ?r" by (simp add: d_sub_def)
  have h: "math_min (Fin dt) (Fin ?r) = Fin (min dt ?r)"
    by (simp add: math_min_def is_nan_def min_def)
  have inv: "time_inv_fl64 H dt ?t' (arr @ [?t'])"
    using assms(1,2,3,5,6) by (rule time_inv_fl64_step)
  then have le: "?t' \<le> H" by (simp add: time_inv_fl64_def)
  have "0 \<le> ?r" using assms(6) by (intro fl64_nonneg) simp
  then have nn: "0 \<le> t + min dt ?r" using t assms(3) by simp
  have "0 \<le> ?t'" using nn by (rule fl64_nonneg)
  with le assms(4) have "dbl (t + min dt ?r) = Fin ?t'" by (simp add: dbl_def)
  then show ?thesis by (simp add: t_rk4_step_dbl assms(7,8,9) sub h)
qed

lemma rk4_loop_dbl_times:
  assumes "is_double H" and "is_double dt" and "0 < dt" and "H < 2 ^ 1024"
    and "t_end_min p = H" and "dt_min p = dt"
    and "time_inv_fl64 H dt t arr" and "t_dbl s = Fin t" and "arr_t_dbl s = map Fin arr"
    and "i = int j"
  shows "\<exists>s'. rk4_loop_dbl p (Fin (of_int nSteps)) j s = Some s' \<and>
              arr_t_dbl s' = map Fin (times_loop fl64 H dt nSteps i t arr)"
  using assms
proof (induction fl64 H dt nSteps i t arr arbitrary: s j rule: times_loop.induct)
  case (1 H dt nSteps i t arr)
  have "real j = of_int (int j)" by simp
  then have gt: "js_gt (Fin (of_int nSteps)) (Fin (of_nat j)) = (i < nSteps)"
    using "1.prems"(10) by (simp only: js_gt.simps of_int_less_iff)
  have ge: "js_ge (t_dbl s) (Fin (t_end_min p)) = (t \<ge> H)"
    using "1.prems"(8,5) by simp
  show ?case
  proof (cases "i < nSteps \<and> \<not> t \<ge> H")
    case True
    let ?t' = "fl64 (t + min dt (fl64 (H - t)))"
    have lt: "t < H" using True by simp
    have t': "t_dbl (rk4_step_dbl p s) = Fin ?t'"
      using "1.prems"(1,2,3,4,7) lt "1.prems"(5,6,8) by (rule t_rk4_step_dbl_Fin)
    have arr': "arr_t_dbl (rk4_step_dbl p s) = map Fin (arr @ [?t'])"
      by (simp add: arr_t_rk4_step_dbl t' "1.prems"(9))
    have inv: "time_inv_fl64 H dt ?t' (arr @ [?t'])"
      using "1.prems"(1,2,3,7) lt by (rule time_inv_fl64_step)
    have "\<exists>s'. rk4_loop_dbl p (Fin (of_int nSteps)) (j + 1) (rk4_step_dbl p s) = Some s' \<and>
        arr_t_dbl s' = map Fin (times_loop fl64 H dt nSteps (i + 1) ?t' (arr @ [?t']))"
      using "1.hyps" [of "min dt (fl64 (H - t))" ?t' "rk4_step_dbl p s" "j + 1"]
        True "1.prems"(1,2,3,4,5,6,10) inv t' arr' by simp
    then show ?thesis
      using True gt ge
      by (subst rk4_loop_dbl.simps, subst times_loop.simps) (simp add: Let_def)
  next
    case False
    then show ?thesis
      using gt ge "1.prems"(9)
      by (subst rk4_loop_dbl.simps, subst times_loop.simps) auto
  qed
qed

lemma nSteps_dbl_step_count:
  assumes "0 < t_end_min p" and "0 < dt_min p" and "fl64 (t_end_min p / dt_min p) < 2 ^ 1024"
  shows "nSteps_dbl p = Fin (of_int (step_count fl64 (t_end_min p) (dt_min p)))"
proof -
  have "0 \<le> fl64 (t_end_min p / dt_min p)" using assms(1,2) by (intro fl64_nonneg) simp
  then have "dbl (t_end_min p / dt_min p) = Fin (fl64 (t_end_min p / dt_min p))"
    using assms(3) by (simp add: dbl_def)
  then show ?thesis using assms(2) by (simp add: nSteps_dbl_def step_count_def)
qed

lemma solveRK4_dbl_times:
  assumes "is_double (t_end_min p)" and "is_double (dt_min p)"
    and "0 < dt_min p" and "0 < t_end_min p" and "t_end_min p < 2 ^ 1024"
    and "fl64 (t_end_min p / dt_min p) < 2 ^ 1024"
  shows "map_option sol_t_dbl (solveRK4_dbl p) = Some (map Fin (sol_times fl64 p))"
proof -
  let ?n = "step_count fl64 (t_end_min p) (dt_min p)"
  have inv: "time_inv_fl64 (t_end_min p) (dt_min p) 0 [0]"
    using assms(4) by (simp add: time_inv_fl64_def is_double_def fl64_0)
  have "\<exists>s'. rk4_loop_dbl p (Fin (of_int ?n)) 0 (rk4_init_dbl p) = Some s' \<and>
      arr_t_dbl s' = map Fin (times_loop fl64 (t_end_min p) (dt_min p) ?n 0 0 [0])"
    using assms(1,2,3,5) refl refl inv
    by (rule rk4_loop_dbl_times) (simp_all add: rk4_init_dbl_def)
  then obtain s' where "rk4_loop_dbl p (Fin (of_int ?n)) 0 (rk4_init_dbl p) = Some s'"
    and "arr_t_dbl s' = map Fin (sol_times fl64 p)"
    by (auto simp: sol_times_def)
  then show ?thesis
    using nSteps_dbl_step_count [OF assms(4,3,6)] by (simp add: solveRK4_dbl_def Let_def)
qed

text \<open>The runs with a step of 0.1 and a horizon of 1 and of 6.\<close>

lemma sol_times_tenth:
  "sol_times fl64 p_tenth =
     [0, 3602879701896397 / 36028797018963968, 3602879701896397 / 18014398509481984,
      1351079888211149 / 4503599627370496, 3602879701896397 / 9007199254740992, 1 / 2,
      5404319552844595 / 9007199254740992, 3152519739159347 / 4503599627370496,
      7205759403792793 / 9007199254740992, 2026619832316723 / 2251799813685248,
      9007199254740991 / 9007199254740992]"
  by (simp add: p_tenth_def sol_times_def step_count_def times_loop.simps fl64_eval)

lemma last_sol_times_sixty:
  "last (sol_times fl64 p_sixty) = 3377699720527869 / 562949953421312"
  by (simp add: p_sixty_def sol_times_def step_count_def times_loop.simps fl64_eval)

text \<open>
  Claim C3 says that the last time of the trace is the horizon exactly; the step
  \<^verbatim>\<open>h = Math.min(p.dt_min, p.t_end_min - t)\<close> of line 101 is there to land on it. The
  program misses it: the loop makes \<^verbatim>\<open>nSteps\<close> passes at most, and the rounded sums
  \<^verbatim>\<open>t += h\<close> can be short of the horizon after the last of them. With a horizon of
  1 and a step of 0.1 the ten passes all have \<open>h = 0.1\<close> and end at \<open>1 - 2^-53\<close>
  (0.9999999999999999); with a horizon of 6 the sixty passes end at \<open>6 - 3 / 2^49\<close>
  (5.999999999999995), which is 24 units of \<open>2^-52\<close> below the horizon.
\<close>

theorem last_time_below_horizon:
  "map_option (last \<circ> sol_t_dbl) (solveRK4_dbl p_tenth) = Some (Fin (1 - 1 / 2 ^ 53)) \<and>
   t_end_min p_tenth = 1 \<and> dt_min p_tenth = fl64 (1 / 10) \<and>
   map_option (last \<circ> sol_t_dbl) (solveRK4_dbl p_sixty) = Some (Fin (6 - 3 / 2 ^ 49)) \<and>
   t_end_min p_sixty = 6 \<and> dt_min p_sixty = fl64 (1 / 10)"
proof -
  have a: "map_option sol_t_dbl (solveRK4_dbl p_tenth) = Some (map Fin (sol_times fl64 p_tenth))"
    by (rule solveRK4_dbl_times) (simp_all add: p_tenth_def is_double_def fl64_eval)
  have b: "map_option sol_t_dbl (solveRK4_dbl p_sixty) = Some (map Fin (sol_times fl64 p_sixty))"
    by (rule solveRK4_dbl_times) (simp_all add: p_sixty_def is_double_def fl64_eval)
  have la: "last (map Fin (sol_times fl64 p_tenth)) = Fin (1 - 1 / 2 ^ 53)"
    by (simp add: sol_times_tenth)
  have lb: "last (map Fin (sol_times fl64 p_sixty)) = Fin (6 - 3 / 2 ^ 49)"
    using sol_times_nonempty [of fl64 p_sixty] by (simp add: last_map last_sol_times_sixty)
  have c: "t_end_min p_tenth = 1" "dt_min p_tenth = fl64 (1 / 10)"
    "t_end_min p_sixty = 6" "dt_min p_sixty = fl64 (1 / 10)"
    by (simp_all add: p_tenth_def p_sixty_def fl64_eval)
  from a la have "map_option (last \<circ> sol_t_dbl) (solveRK4_dbl p_tenth) = Some (Fin (1 - 1 / 2 ^ 53))"
    by (cases "solveRK4_dbl p_tenth") auto
  moreover from b lb
  have "map_option (last \<circ> sol_t_dbl) (solveRK4_dbl p_sixty) = Some (Fin (6 - 3 / 2 ^ 49))"
    by (cases "solveRK4_dbl p_sixty") auto
  ultimately show ?thesis using c by simp
qed

subsection \<open>The masses, and a run that overflows\<close>

text \<open>A property kept by every pass that the loop runs holds when the loop ends.\<close>

lemma rk4_loop_dbl_invariant:
  assumes "rk4_loop_dbl p nSteps i s = Some s'" and "P s" and "\<And>u. P u \<Longrightarrow> P (rk4_step_dbl p u)"
  shows "P s'"
proof -
  have "p = p \<longrightarrow> P s \<longrightarrow> P s'"
  proof (rule rk4_loop_dbl.raw_induct [where P = "\<lambda>q n i s s'. q = p \<longrightarrow> P s \<longrightarrow> P s'", OF _ assms(1)])
    fix f :: "params \<Rightarrow> jsval \<Rightarrow> nat \<Rightarrow> rk4_state_dbl \<Rightarrow> rk4_state_dbl option"
      and q n i s r
    assume IH: "\<And>q n i s r. f q n i s = Some r \<Longrightarrow> q = p \<longrightarrow> P s \<longrightarrow> P r"
    assume eq: "(if js_gt n (Fin (real i))
         then if js_ge (t_dbl s) (Fin (t_end_min q)) then Some s
              else f q n (i + 1) (rk4_step_dbl q s)
         else Some s) = Some r"
    show "q = p \<longrightarrow> P s \<longrightarrow> P r"
    proof (intro impI)
      assume q: "q = p" and s: "P s"
      show "P r"
      proof (cases "js_gt n (Fin (real i)) \<and> \<not> js_ge (t_dbl s) (Fin (t_end_min q))")
        case True
        then have "f q n (i + 1) (rk4_step_dbl q s) = Some r" using eq by simp
        then have "P (rk4_step_dbl q s) \<longrightarrow> P r" using IH q by blast
        then show ?thesis using assms(3) [OF s] q by simp
      next
        case False
        then have "r = s" using eq by (auto split: if_splits)
        then show ?thesis using s by simp
      qed
    qed
  qed
  then show ?thesis using assms(2) by simp
qed

text \<open>
  When the loop ends, every mass of the trace is non-negative or \<^verbatim>\<open>NaN\<close>: the
  clamp lets nothing else through.
\<close>

lemma math_max_0: "math_max (Fin 0) u = NaN \<or> js_ge (math_max (Fin 0) u) (Fin 0)"
  by (cases u) (simp_all add: math_max_def is_nan_def)

lemma mass_inv_dbl_step: "mass_inv_dbl s \<Longrightarrow> mass_inv_dbl (rk4_step_dbl p s)"
  using math_max_0 by (auto simp: mass_inv_dbl_def rk4_step_dbl_def Let_def split_def)

lemma mass_inv_dbl_init: "0 \<le> bolus_mg p \<Longrightarrow> mass_inv_dbl (rk4_init_dbl p)"
  by (simp add: mass_inv_dbl_def rk4_init_dbl_def)

lemma masses_dbl_nonneg_or_nan:
  assumes "0 \<le> bolus_mg p" and "solveRK4_dbl p = Some sol"
    and "m \<in> set (sol_A1_dbl sol) \<union> set (sol_A2_dbl sol) \<union> set (sol_A3_dbl sol)"
  shows "m = NaN \<or> js_ge m (Fin 0)"
proof -
  from assms(2) obtain s where s: "rk4_loop_dbl p (nSteps_dbl p) 0 (rk4_init_dbl p) = Some s"
    and sol: "sol_A1_dbl sol = arr_A1_dbl s" "sol_A2_dbl sol = arr_A2_dbl s"
      "sol_A3_dbl sol = arr_A3_dbl s"
    by (auto simp: solveRK4_dbl_def Let_def split: option.splits)
  have "mass_inv_dbl s"
    using s mass_inv_dbl_init [OF assms(1)] mass_inv_dbl_step by (rule rk4_loop_dbl_invariant)
  then show ?thesis using assms(3) sol by (auto simp: mass_inv_dbl_def)
qed

text \<open>
  The first pass of the loop from a bolus of \<open>2^1023\<close> with a step of 128. The slopes
  \<open>k1\<close> are finite; \<open>0.5 * h * k1\<close> overflows in all three components, so that the
  slopes \<open>k2\<close>, \<open>k3\<close> and \<open>k4\<close> are infinities of alternating sign, and the sums of
  lines 108 to 110 add \<^verbatim>\<open>Infinity\<close> to \<^verbatim>\<open>-Infinity\<close>.
\<close>

lemma big_dyadic:
  "fl64 (4917930793088581 * 2 ^ 969) = 4917930793088581 * 2 ^ 969"
  "fl64 (- (4917930793088581 * 2 ^ 969)) = - (4917930793088581 * 2 ^ 969)"
  "fl64 (8070450532247929 * 2 ^ 967) = 8070450532247929 * 2 ^ 967"
  "fl64 (6052837899185947 * 2 ^ 966) = 6052837899185947 * 2 ^ 966"
  "fl64 (- (4917930793088581 * 2 ^ 975)) = - (4917930793088581 * 2 ^ 975)"
  "fl64 (8070450532247929 * 2 ^ 973) = 8070450532247929 * 2 ^ 973"
  "fl64 (6052837899185947 * 2 ^ 972) = 6052837899185947 * 2 ^ 972"
  using fl64_dyadic [of "4917930793088581" 969] fl64_dyadic [of "- 4917930793088581" 969]
    fl64_dyadic [of "8070450532247929" 967] fl64_dyadic [of "6052837899185947" 966]
    fl64_dyadic [of "- 4917930793088581" 975] fl64_dyadic [of "8070450532247929" 973]
    fl64_dyadic [of "6052837899185947" 972]
  by simp_all

lemmas deriv_dbl_eval = deriv_dbl_def doseRate_dbl_def p_overflow_def dbl_def d_sub_def
  inf_times_def consts_dbl fl64_0 Let_def

lemma overflow_k1:
  "deriv_dbl t (Fin (2 ^ 1023)) (Fin 0) (Fin 0) p_overflow =
     (Fin (- (4917930793088581 * 2 ^ 969)), Fin (8070450532247929 * 2 ^ 967),
      Fin (6052837899185947 * 2 ^ 966))"
  using big_dyadic by (simp add: deriv_dbl_eval small_dbl)

lemma overflow_k2: "deriv_dbl t NInf PInf PInf p_overflow = (PInf, NInf, NInf)"
  by (simp add: deriv_dbl_eval small_dbl)

lemma overflow_k3: "deriv_dbl t PInf NInf NInf p_overflow = (NInf, PInf, PInf)"
  by (simp add: deriv_dbl_eval small_dbl)

lemma overflow_args:
  "d_mul (Fin 64) (Fin (- (4917930793088581 * 2 ^ 969))) = NInf"
  "d_mul (Fin 64) (Fin (8070450532247929 * 2 ^ 967)) = PInf"
  "d_mul (Fin 64) (Fin (6052837899185947 * 2 ^ 966)) = PInf"
  using big_dyadic by (simp_all add: dbl_def)

lemma overflow_update:
  "rk4_update_dbl p_overflow (Fin 0) (Fin 128) (Fin (2 ^ 1023)) (Fin 0) (Fin 0) = (NaN, NaN, NaN)"
  using overflow_k1 overflow_k2 overflow_k3 overflow_args
  by (simp add: rk4_update_dbl_def rk4_slope_sum_def dbl_def inf_times_def Let_def small_dbl)

lemma overflow_step:
  "rk4_step_dbl p_overflow (rk4_init_dbl p_overflow) =
     \<lparr> t_dbl = Fin 128, A1_dbl = NaN, A2_dbl = NaN, A3_dbl = NaN,
       arr_t_dbl = [Fin 0, Fin 128], arr_A1_dbl = [Fin (2 ^ 1023), NaN],
       arr_A2_dbl = [Fin 0, NaN], arr_A3_dbl = [Fin 0, NaN] \<rparr>"
proof -
  have h: "math_min (Fin 128) (d_sub (Fin 128) (Fin 0)) = Fin 128"
    by (simp add: math_min_def d_sub_def is_nan_def dbl_def small_dbl)
  have t: "d_add (Fin 0) (Fin 128) = Fin 128" by (simp add: dbl_def small_dbl)
  have m: "math_max (Fin 0) NaN = NaN" by (simp add: math_max_def is_nan_def)
  have p: "dt_min p_overflow = 128" "t_end_min p_overflow = 128" "bolus_mg p_overflow = 2 ^ 1023"
    by (simp_all add: p_overflow_def)
  show ?thesis
    unfolding rk4_step_dbl_def rk4_init_dbl_def
    by (simp only: rk4_state_dbl.simps p h t m overflow_update Let_def prod.case append.simps)
qed

lemma overflow_loop:
  "rk4_loop_dbl p_overflow (nSteps_dbl p_overflow) 0 (rk4_init_dbl p_overflow) =
     Some (rk4_step_dbl p_overflow (rk4_init_dbl p_overflow))"
proof -
  have n: "nSteps_dbl p_overflow = Fin 1"
    by (simp add: nSteps_dbl_def p_overflow_def dbl_def unit_dbl)
  have "rk4_loop_dbl p_overflow (Fin 1) 0 (rk4_init_dbl p_overflow) =
        rk4_loop_dbl p_overflow (Fin 1) 1 (rk4_step_dbl p_overflow (rk4_init_dbl p_overflow))"
    by (subst rk4_loop_dbl.simps) (simp add: rk4_init_dbl_def p_overflow_def)
  also have "\<dots> = Some (rk4_step_dbl p_overflow (rk4_init_dbl p_overflow))"
    by (subst rk4_loop_dbl.simps) simp
  finally show ?thesis by (simp only: n)
qed

lemma overflow_masses:
  "map_option sol_t_dbl (solveRK4_dbl p_overflow) = Some [Fin 0, Fin 128] \<and>
   map_option sol_A1_dbl (solveRK4_dbl p_overflow) = Some [Fin (2 ^ 1023), NaN] \<and>
   map_option sol_A2_dbl (solveRK4_dbl p_overflow) = Some [Fin 0, NaN] \<and>
   map_option sol_A3_dbl (solveRK4_dbl p_overflow) = Some [Fin 0, NaN]"
  by (simp add: solveRK4_dbl_def overflow_loop overflow_step Let_def)

text \<open>
  Claim C4 says that the three masses are non-negative at every index of the trace;
  the clamps of lines 113 to 115 (\<^verbatim>\<open>// Avoid tiny negatives from numerical error\<close>)
  are there for it. The program misses a case: \<^verbatim>\<open>Math.max(0, NaN)\<close> is \<^verbatim>\<open>NaN\<close>,
  and \<^verbatim>\<open>NaN >= 0\<close> is false. With a bolus of \<open>2^1023\<close>, a horizon of 128 and a step of
  128, which \<^verbatim>\<open>readParams\<close> returns as they are, the three masses at index 1 are
  \<^verbatim>\<open>NaN\<close>.
\<close>

theorem masses_nan_on_overflow:
  "params_of (readParams_dbl raw_overflow) = p_overflow \<and> normalized p_overflow \<and>
   map_option sol_t_dbl (solveRK4_dbl p_overflow) = Some [Fin 0, Fin 128] \<and>
   map_option sol_A1_dbl (solveRK4_dbl p_overflow) = Some [Fin (2 ^ 1023), NaN] \<and>
   map_option sol_A2_dbl (solveRK4_dbl p_overflow) = Some [Fin 0, NaN] \<and>
   map_option sol_A3_dbl (solveRK4_dbl p_overflow) = Some [Fin 0, NaN] \<and>
   js_ge NaN (Fin 0) = False"
proof -
  have "params_of (readParams_dbl raw_overflow) = p_overflow"
    by (simp add: readParams_dbl_def raw_overflow_def p_overflow_def guardrails_dbl_def
        guard_positive_def guard_nonneg_def MAX_STEPS_def dbl_def unit_dbl Let_def)
  moreover have "normalized p_overflow" by (simp add: normalized_def p_overflow_def)
  ultimately show ?thesis using overflow_masses by simp
qed

subsection \<open>A run with no dose\<close>

text \<open>
  With no infusion the slopes of the zero state are zero, and so is the update of the
  zero state by a step \<open>h\<close> that is finite.
\<close>

lemma deriv_dbl_zero:
  assumes "infusion_mg_min p \<le> 0 \<or> infusion_duration_min p \<le> 0"
  shows "deriv_dbl t (Fin 0) (Fin 0) (Fin 0) p = (Fin 0, Fin 0, Fin 0)"
  using assms
  by (simp add: deriv_dbl_def doseRate_dbl_def consts_dbl dbl_def d_sub_def fl64_0 small_dbl Let_def)

lemma rk4_update_dbl_zero:
  assumes "infusion_mg_min p \<le> 0 \<or> infusion_duration_min p \<le> 0"
    and "0 \<le> h" and "h \<le> M" and "is_double M" and "M < 2 ^ 1024"
  shows "rk4_update_dbl p t (Fin h) (Fin 0) (Fin 0) (Fin 0) = (Fin 0, Fin 0, Fin 0)"
proof -
  have "dbl (1 / 2 * h) = Fin (fl64 (1 / 2 * h))"
    using assms(2,3,4,5) by (intro dbl_Fin [of _ M]) simp_all
  then have hh: "d_mul (Fin (1 / 2)) (Fin h) = Fin (fl64 (1 / 2 * h))" by simp
  have "dbl (h / 6) = Fin (fl64 (h / 6))"
    using assms(2,3,4,5) by (intro dbl_Fin [of _ M]) simp_all
  then have h6: "d_div (Fin h) (Fin 6) = Fin (fl64 (h / 6))" by simp
  have z: "d_mul (Fin x) (Fin 0) = Fin 0" "d_add (Fin 0) (Fin 0) = Fin 0" for x
    by (simp_all add: dbl_def fl64_0)
  show ?thesis
    unfolding rk4_update_dbl_def rk4_slope_sum_def
    by (simp only: hh h6 z deriv_dbl_zero [OF assms(1)] Let_def prod.case)
qed

text \<open>
  For the weight \<open>2^-1074\<close>, \<^verbatim>\<open>V1 = V1_per_kg * p.weight\<close> underflows to 0, and the
  concentrations are \<^verbatim>\<open>0 / 0\<close>.
\<close>

lemma underflow_V1: "d_mul V1_per_kg_dbl (Fin (weight p_underflow)) = Fin 0"
proof -
  have "fl64 (8214565720323785 / 36028797018963968 * (1 / 2 ^ 1074)) = 0"
    using pow2_neg_nat [of 1075] by (intro fl64_tiny) simp_all
  then show ?thesis by (simp add: consts_dbl p_underflow_def dbl_def)
qed

lemma underflow_update:
  "rk4_update_dbl p_underflow (Fin 0) (Fin 1) (Fin 0) (Fin 0) (Fin 0) = (Fin 0, Fin 0, Fin 0)"
  by (rule rk4_update_dbl_zero [of _ _ 1]) (simp_all add: p_underflow_def is_double_def unit_dbl)

lemma underflow_step:
  "rk4_step_dbl p_underflow (rk4_init_dbl p_underflow) =
     \<lparr> t_dbl = Fin 1, A1_dbl = Fin 0, A2_dbl = Fin 0, A3_dbl = Fin 0,
       arr_t_dbl = [Fin 0, Fin 1], arr_A1_dbl = [Fin 0, Fin 0],
       arr_A2_dbl = [Fin 0, Fin 0], arr_A3_dbl = [Fin 0, Fin 0] \<rparr>"
proof -
  have h: "math_min (Fin 1) (d_sub (Fin 1) (Fin 0)) = Fin 1"
    by (simp add: math_min_def d_sub_def is_nan_def dbl_def unit_dbl)
  have t: "d_add (Fin 0) (Fin 1) = Fin 1" by (simp add: dbl_def unit_dbl)
  have m: "math_max (Fin 0) (Fin 0) = Fin 0" by (simp add: math_max_def is_nan_def)
  have p: "dt_min p_underflow = 1" "t_end_min p_underflow = 1" "bolus_mg p_underflow = 0"
    by (simp_all add: p_underflow_def)
  show ?thesis
    unfolding rk4_step_dbl_def rk4_init_dbl_def
    by (simp only: rk4_state_dbl.simps p h t m underflow_update Let_def prod.case append.simps)
qed

lemma underflow_loop:
  "rk4_loop_dbl p_underflow (nSteps_dbl p_underflow) 0 (rk4_init_dbl p_underflow) =
     Some (rk4_step_dbl p_underflow (rk4_init_dbl p_underflow))"
proof -
  have n: "nSteps_dbl p_underflow = Fin 1"
    by (simp add: nSteps_dbl_def p_underflow_def dbl_def unit_dbl)
  have "rk4_loop_dbl p_underflow (Fin 1) 0 (rk4_init_dbl p_underflow) =
        rk4_loop_dbl p_underflow (Fin 1) 1 (rk4_step_dbl p_underflow (rk4_init_dbl p_underflow))"
    by (subst rk4_loop_dbl.simps) (simp add: rk4_init_dbl_def p_underflow_def)
  also have "\<dots> = Some (rk4_step_dbl p_underflow (rk4_init_dbl p_underflow))"
    by (subst rk4_loop_dbl.simps) (simp add: underflow_step)
  finally show ?thesis by (simp only: n)
qed

lemma underflow_trace:
  "solveRK4_dbl p_underflow =
     Some \<lparr> sol_t_dbl = [Fin 0, Fin 1], sol_A1_dbl = [Fin 0, Fin 0], sol_A2_dbl = [Fin 0, Fin 0],
            sol_A3_dbl = [Fin 0, Fin 0], sol_C1_dbl = [NaN, NaN] \<rparr>"
  by (simp add: solveRK4_dbl_def underflow_loop underflow_step underflow_V1 inf_times_def Let_def)

lemma underflow_metrics:
  "computeMetrics_dbl \<lparr> sol_t_dbl = [Fin 0, Fin 1], sol_A1_dbl = [Fin 0, Fin 0],
       sol_A2_dbl = [Fin 0, Fin 0], sol_A3_dbl = [Fin 0, Fin 0], sol_C1_dbl = [NaN, NaN] \<rparr> =
     \<lparr> cmax = NInf, tmax = Fin 0, auc = NaN \<rparr>"
proof -
  have "[0 ..< 2] = [0, Suc 0]" by (simp add: upt_rec)
  then show ?thesis
    by (simp add: computeMetrics_dbl_def metrics_body_dbl_def val_index_def d_sub_def dbl_def
        unit_dbl Let_def)
qed

lemma underflow_shown:
  "showMetrics \<lparr> cmax = NInf, tmax = Fin 0, auc = NaN \<rparr> =
     Inr \<lparr> out_cmax = None, out_tmax = Fin 0, out_auc = NaN \<rparr>"
  by (simp add: showMetrics_def toFixed_num_def)

text \<open>
  Claim C7 says that with no bolus and no infusion the masses and the concentrations
  are 0 at every index and that \<open>cmax = 0\<close> and \<open>auc = 0\<close>. The guardrail of line 45
  keeps every positive weight, and the program misses the weights whose \<^verbatim>\<open>V1\<close>
  underflows to 0: with a weight of \<open>2^-1074\<close> the masses are 0, but both
  concentrations are \<^verbatim>\<open>NaN\<close>, \<^verbatim>\<open>cmax\<close> stays \<^verbatim>\<open>-Infinity\<close> (shown as the dash)
  and \<^verbatim>\<open>auc\<close> is \<^verbatim>\<open>NaN\<close>.
\<close>

theorem no_dose_nan_on_underflow:
  "params_of (readParams_dbl raw_underflow) = p_underflow \<and> normalized p_underflow \<and>
   bolus_mg p_underflow = 0 \<and> infusion_mg_min p_underflow = 0 \<and>
   solveRK4_dbl p_underflow =
     Some \<lparr> sol_t_dbl = [Fin 0, Fin 1], sol_A1_dbl = [Fin 0, Fin 0], sol_A2_dbl = [Fin 0, Fin 0],
            sol_A3_dbl = [Fin 0, Fin 0], sol_C1_dbl = [NaN, NaN] \<rparr> \<and>
   map_option computeMetrics_dbl (solveRK4_dbl p_underflow) =
     Some \<lparr> cmax = NInf, tmax = Fin 0, auc = NaN \<rparr> \<and>
   showMetrics \<lparr> cmax = NInf, tmax = Fin 0, auc = NaN \<rparr> =
     Inr \<lparr> out_cmax = None, out_tmax = Fin 0, out_auc = NaN \<rparr>"
proof -
  have "params_of (readParams_dbl raw_underflow) = p_underflow"
    by (simp add: readParams_dbl_def raw_underflow_def p_underflow_def guardrails_dbl_def
        guard_positive_def guard_nonneg_def MAX_STEPS_def dbl_def unit_dbl Let_def)
  moreover have "normalized p_underflow" "bolus_mg p_underflow = 0" "infusion_mg_min p_underflow = 0"
    by (simp_all add: normalized_def p_underflow_def)
  ultimately show ?thesis
    by (simp add: underflow_trace underflow_metrics underflow_shown)
qed

end
